theory Spec2Isabelle
  imports Complex_Main "HOL-Library.Multiset" "HOL-Library.Product_Lexorder"
begin

section \<open>Order prioritisation (src/order\_priority.py)\<close>

text \<open>
  An order is a Python dictionary.  The keys the source subscripts directly
  (\<^verbatim>\<open>order["expires_turn"]\<close>, \<^verbatim>\<open>selected["order_id"]\<close>) are required fields of the
  record; every key that is only read through \<^verbatim>\<open>.get\<close> is an optional field, and the
  default of each \<^verbatim>\<open>.get\<close> is written out where the source reads it.  Python floats
  are modelled as real numbers: rounding, infinities and NaN are outside the model.
\<close>

record order =
  order_id :: int
  required :: "string list option"
  reward :: "real option"
  penalty :: "real option"
  created_turn :: "int option"
  expires_turn :: int
  is_active :: "bool option"
  claimed_by :: "int option"
  completed_turn :: "int option"

text \<open>The dictionary \<^verbatim>\<open>{**order, "priority_score": ..., ...}\<close>: all keys of the order plus four.\<close>

record scored_order = order +
  priority_score :: real
  turns_left :: int
  estimated_prep :: real
  slack :: real

text \<open>
  \<^verbatim>\<open>FoodType\<close> and \<^verbatim>\<open>GameConstants.COOK_PROGRESS\<close> come from the module
  \<^verbatim>\<open>game_constants\<close>, which is not part of the sources: the members of the enumeration
  and the constant are parameters.
\<close>

record food_type =
  food_name :: string
  can_chop :: bool
  can_cook :: bool

definition food_prep_time :: "real \<Rightarrow> food_type \<Rightarrow> real" where
  "food_prep_time cook_progress ft =
     (let prep_time = 0;
          prep_time = (if can_chop ft then prep_time + 1 else prep_time);
          prep_time = (if can_cook ft then prep_time + cook_progress else prep_time)
      in prep_time)"

definition add_food_entry :: "real \<Rightarrow> (string \<rightharpoonup> real) \<Rightarrow> food_type \<Rightarrow> (string \<rightharpoonup> real)" where
  "add_food_entry cook_progress tbl ft =
     (let tbl1 = tbl(food_name ft \<mapsto> food_prep_time cook_progress ft)
      in if food_name ft = ''ONIONS''
         then tbl1(''ONION'' \<mapsto> food_prep_time cook_progress ft)
         else tbl1)"

definition build_default_prep_time_by_food :: "food_type list \<Rightarrow> real \<Rightarrow> (string \<rightharpoonup> real)" where
  "build_default_prep_time_by_food food_types cook_progress =
     foldl (add_food_entry cook_progress) Map.empty food_types"

definition estimate_prep_turns ::
  "food_type list \<Rightarrow> real \<Rightarrow> string list \<Rightarrow> (string \<rightharpoonup> real) option \<Rightarrow> real \<Rightarrow> real" where
  "estimate_prep_turns food_types cook_progress required_list prep_time_by_food default_prep_time =
     (let tbl = (case prep_time_by_food of
                   None \<Rightarrow> build_default_prep_time_by_food food_types cook_progress
                 | Some t \<Rightarrow> t)
      in sum_list (map (\<lambda>food. case tbl food of None \<Rightarrow> default_prep_time | Some v \<Rightarrow> v)
                       required_list))"

text \<open>The keyword arguments of \<^verbatim>\<open>build_order_priority_queue\<close>, after the orders and the turn.\<close>

record priority_config =
  prep_time_by_food :: "(string \<rightharpoonup> real) option"
  default_prep_time :: real
  value_weight :: real
  urgency_weight :: real
  slack_weight :: real
  activation_weight :: real
  allow_inactive :: bool
  allow_claimed :: bool

definition order_is_active :: "'a order_scheme \<Rightarrow> bool" where
  "order_is_active ord = (case is_active ord of None \<Rightarrow> False | Some b \<Rightarrow> b)"

text \<open>The four \<^verbatim>\<open>continue\<close> tests at the head of the loop body, in the source's order.\<close>

definition survives :: "priority_config \<Rightarrow> int \<Rightarrow> order \<Rightarrow> bool" where
  "survives cfg current_turn ord =
     (if completed_turn ord \<noteq> None then False
      else if \<not> allow_inactive cfg \<and> \<not> order_is_active ord then False
      else if \<not> allow_claimed cfg \<and> claimed_by ord \<noteq> None then False
      else if expires_turn ord - current_turn < 0 then False
      else True)"

text \<open>The rest of the loop body: the dictionary appended for an order that was not skipped.\<close>

definition score_order ::
  "food_type list \<Rightarrow> real \<Rightarrow> priority_config \<Rightarrow> int \<Rightarrow> order \<Rightarrow> scored_order" where
  "score_order food_types cook_progress cfg current_turn ord =
     (let time_left = expires_turn ord - current_turn;
          req = (case required ord of None \<Rightarrow> [] | Some r \<Rightarrow> r);
          est = estimate_prep_turns food_types cook_progress req
                  (prep_time_by_food cfg) (default_prep_time cfg);
          slk = real_of_int time_left - est;
          val = (case reward ord of None \<Rightarrow> 0 | Some r \<Rightarrow> r)
              + (case penalty ord of None \<Rightarrow> 0 | Some p \<Rightarrow> p);
          value_rate = val / max est 1;
          urgency = 1 / real_of_int (max time_left 1);
          slack_score = 1 / (1 + max slk 0);
          overdue_penalty = max 0 (- slk);
          score =
            (if order_is_active ord then
               value_weight cfg * value_rate
               + urgency_weight cfg * urgency
               + slack_weight cfg * slack_score
               - overdue_penalty
             else
               (let turns_until_active =
                      max 0 ((case created_turn ord of None \<Rightarrow> current_turn | Some c \<Rightarrow> c)
                             - current_turn)
                in - activation_weight cfg * real_of_int turns_until_active))
      in order.extend ord
           (scored_order.fields score time_left est slk))"

fun collect_prioritized ::
  "food_type list \<Rightarrow> real \<Rightarrow> priority_config \<Rightarrow> int \<Rightarrow> order list \<Rightarrow> scored_order list" where
  "collect_prioritized food_types cook_progress cfg current_turn [] = []"
| "collect_prioritized food_types cook_progress cfg current_turn (ord # rest) =
     (if survives cfg current_turn ord
      then score_order food_types cook_progress cfg current_turn ord
           # collect_prioritized food_types cook_progress cfg current_turn rest
      else collect_prioritized food_types cook_progress cfg current_turn rest)"

text \<open>The sort key of the source: a tuple, compared lexicographically.\<close>

definition priority_key :: "scored_order \<Rightarrow> real \<times> int \<times> int \<times> int" where
  "priority_key so =
     (priority_score so,
      - turns_left so,
      (case created_turn so of None \<Rightarrow> 0 | Some c \<Rightarrow> c),
      order_id so)"

text \<open>
  \<^verbatim>\<open>list.sort(key=..., reverse=True)\<close> is a stable sort that keeps the input order of
  elements with equal keys: the list is reversed, sorted stably in ascending order and
  reversed again.
\<close>

definition sort_reverse :: "('a \<Rightarrow> 'k::linorder) \<Rightarrow> 'a list \<Rightarrow> 'a list" where
  "sort_reverse f xs = rev (sort_key f (rev xs))"

definition build_order_priority_queue ::
  "food_type list \<Rightarrow> real \<Rightarrow> order list \<Rightarrow> int \<Rightarrow> priority_config \<Rightarrow> scored_order list" where
  "build_order_priority_queue food_types cook_progress orders current_turn cfg =
     sort_reverse priority_key
       (collect_prioritized food_types cook_progress cfg current_turn orders)"


text \<open>
  The ranking as the specification words it: an order outranks another when its
  priority score is higher, then when its turns left are fewer, then when its created
  turn is larger, then when its order id is larger.
\<close>

definition outranks :: "scored_order \<Rightarrow> scored_order \<Rightarrow> bool" where
  "outranks a b =
     (let ca = (case created_turn a of None \<Rightarrow> 0 | Some c \<Rightarrow> c);
          cb = (case created_turn b of None \<Rightarrow> 0 | Some c \<Rightarrow> c)
      in priority_score a > priority_score b
         \<or> (priority_score a = priority_score b \<and>
             (turns_left a < turns_left b
              \<or> (turns_left a = turns_left b \<and>
                  (ca > cb \<or> (ca = cb \<and> order_id a > order_id b))))))"

text \<open>
  The score as the specification words it, over the derived fields of a scored order.
  The specification is silent on an order without \<^verbatim>\<open>created_turn\<close>; the source takes
  the current turn there.
\<close>

definition spec_priority_score :: "priority_config \<Rightarrow> int \<Rightarrow> scored_order \<Rightarrow> real" where
  "spec_priority_score cfg current_turn so =
     (let val = (case reward so of None \<Rightarrow> 0 | Some r \<Rightarrow> r)
              + (case penalty so of None \<Rightarrow> 0 | Some p \<Rightarrow> p);
          value_rate = val / max (estimated_prep so) 1;
          urgency = 1 / real_of_int (max (turns_left so) 1);
          slack_score = 1 / (1 + max (slack so) 0);
          overdue_penalty = max 0 (- slack so)
      in if order_is_active so
         then value_weight cfg * value_rate + urgency_weight cfg * urgency
              + slack_weight cfg * slack_score - overdue_penalty
         else - activation_weight cfg
              * real_of_int (max 0 ((case created_turn so of None \<Rightarrow> current_turn | Some c \<Rightarrow> c)
                                    - current_turn)))"

text \<open>Concrete inputs on which the theorems below are instantiated.\<close>

definition demo_cfg :: priority_config where
  "demo_cfg = \<lparr>prep_time_by_food = None, default_prep_time = 1, value_weight = 1,
      urgency_weight = 1, slack_weight = 1, activation_weight = 1,
      allow_inactive = True, allow_claimed = False\<rparr>"

definition demo_order :: "int \<Rightarrow> bool \<Rightarrow> real \<Rightarrow> int \<Rightarrow> order" where
  "demo_order i act rw cr =
     \<lparr>order_id = i, required = Some [''MEAT''], reward = Some rw, penalty = None,
      created_turn = Some cr, expires_turn = 10, is_active = Some act,
      claimed_by = None, completed_turn = None\<rparr>"

definition demo_orders :: "order list" where
  "demo_orders = [demo_order 1 True 10 0, demo_order 2 False 10 5, demo_order 3 True 20 0]"

definition demo_mixed :: "order list" where
  "demo_mixed =
     [demo_order 1 True 10 0,
      (demo_order 4 True 10 0)\<lparr>completed_turn := Some 3\<rparr>,
      (demo_order 5 True 10 0)\<lparr>claimed_by := Some 7\<rparr>,
      (demo_order 6 True 10 0)\<lparr>expires_turn := - 1\<rparr>]"

section \<open>The bot (bots/duo\_noodle\_bot.py)\<close>

subsection \<open>The game's data, as the bot reads it\<close>

text \<open>
  The modules \<^verbatim>\<open>item\<close>, \<^verbatim>\<open>game_constants\<close> and \<^verbatim>\<open>robot_controller\<close> are not part of the
  sources.  Of an item the bot reads its class (\<^verbatim>\<open>isinstance(..., Pan)\<close>), a pan's
  \<^verbatim>\<open>food\<close> and a food's \<^verbatim>\<open>cooked_stage\<close>; of a tile its \<^verbatim>\<open>tile_name\<close> and \<^verbatim>\<open>item\<close>; of a map
  its \<^verbatim>\<open>width\<close>, \<^verbatim>\<open>height\<close>, \<^verbatim>\<open>tiles[x][y]\<close> and \<^verbatim>\<open>is_tile_walkable(x, y)\<close>.
\<close>

type_synonym cell = "int \<times> int"

record food =
  cooked_stage :: int

datatype item = Pan "food option" | Plate | Food_item food

record tile =
  tile_name :: string
  item :: "item option"

record game_map =
  width :: int
  height :: int
  tiles :: "int \<Rightarrow> int \<Rightarrow> tile"
  is_tile_walkable :: "int \<Rightarrow> int \<Rightarrow> bool"

subsection \<open>Pathfinding (\<^verbatim>\<open>get_bfs_path\<close>, lines 28 to 49)\<close>

text \<open>
  The queue holds pairs of a cell and the path of moves that led to it; \<^verbatim>\<open>visited\<close> is a
  set.  \<^verbatim>\<open>visit_neighbour\<close> is the body of the inner \<^verbatim>\<open>for\<close> loop for one direction,
  \<^verbatim>\<open>bfs_loop\<close> the \<^verbatim>\<open>while\<close> loop.  The bounds are those of \<^verbatim>\<open>self.map\<close>, walkability is
  asked of the controller's map.  The loop ends because every pass takes one entry from
  the queue and every new entry uses up one unvisited cell within the bounds.
\<close>

definition directions :: "cell list" where
  "directions = [(1, 0), (- 1, 0), (0, 1), (0, - 1)]"

definition visit_neighbour ::
  "int \<Rightarrow> int \<Rightarrow> (int \<Rightarrow> int \<Rightarrow> bool) \<Rightarrow> cell \<Rightarrow> cell list \<Rightarrow>
     (cell \<times> cell list) list \<times> cell set \<Rightarrow> cell \<Rightarrow> (cell \<times> cell list) list \<times> cell set" where
  "visit_neighbour w h walkable c path qv d =
     (case (c, qv, d) of ((x, y), (queue, visited), (dx, dy)) \<Rightarrow>
        (let nx = x + dx; ny = y + dy
         in if 0 \<le> nx \<and> nx < w \<and> 0 \<le> ny \<and> ny < h \<and> (nx, ny) \<notin> visited
            then (if walkable nx ny
                  then (queue @ [((nx, ny), path @ [(dx, dy)])], insert (nx, ny) visited)
                  else (queue, visited))
            else (queue, visited)))"

definition bfs_measure :: "int \<Rightarrow> int \<Rightarrow> (cell \<times> cell list) list \<times> cell set \<Rightarrow> nat" where
  "bfs_measure w h qv = 2 * card (({0..<w} \<times> {0..<h}) - snd qv) + length (fst qv)"

lemma visit_neighbour_measure:
  "bfs_measure w h (visit_neighbour w h walkable c path qv d) \<le> bfs_measure w h qv"
proof -
  obtain x y where c: "c = (x, y)" by (cases c)
  obtain queue visited where qv: "qv = (queue, visited)" by (cases qv)
  obtain dx dy where d: "d = (dx, dy)" by (cases d)
  define G :: "cell set" where "G = {0..<w} \<times> {0..<h}"
  define n where "n = (x + dx, y + dy)"
  have fin: "finite (G - visited)" by (simp add: G_def)
  show ?thesis
  proof (cases "0 \<le> x + dx \<and> x + dx < w \<and> 0 \<le> y + dy \<and> y + dy < h \<and> n \<notin> visited
                \<and> walkable (x + dx) (y + dy)")
    case True
    then have "n \<in> G - visited" by (simp add: G_def n_def)
    with fin have "card ((G - visited) - {n}) < card (G - visited)"
      by (rule card_Diff1_less)
    moreover have "(G - visited) - {n} = G - insert n visited" by blast
    ultimately have lt: "card (G - insert n visited) < card (G - visited)" by simp
    have r: "visit_neighbour w h walkable c path qv d
               = (queue @ [(n, path @ [(dx, dy)])], insert n visited)"
      using True unfolding c qv d visit_neighbour_def Let_def n_def by simp
    have "bfs_measure w h (visit_neighbour w h walkable c path qv d)
            = 2 * card (G - insert n visited) + (length queue + 1)"
      unfolding r bfs_measure_def G_def by simp
    also have "\<dots> \<le> 2 * card (G - visited) + length queue"
      using lt by linarith
    also have "\<dots> = bfs_measure w h qv"
      unfolding qv bfs_measure_def G_def by simp
    finally show ?thesis .
  next
    case False
    then have "visit_neighbour w h walkable c path qv d = qv"
      unfolding c qv d visit_neighbour_def Let_def n_def by auto
    then show ?thesis by simp
  qed
qed

lemma foldl_visit_measure:
  "bfs_measure w h (foldl (visit_neighbour w h walkable c path) qv ds) \<le> bfs_measure w h qv"
proof (induction ds arbitrary: qv)
  case Nil
  show ?case by simp
next
  case (Cons d ds)
  have "bfs_measure w h (foldl (visit_neighbour w h walkable c path) qv (d # ds))
          \<le> bfs_measure w h (visit_neighbour w h walkable c path qv d)"
    using Cons.IH by simp
  also have "\<dots> \<le> bfs_measure w h qv" by (rule visit_neighbour_measure)
  finally show ?case .
qed

function bfs_loop ::
  "int \<Rightarrow> int \<Rightarrow> (int \<Rightarrow> int \<Rightarrow> bool) \<Rightarrow> (int \<Rightarrow> int \<Rightarrow> tile option) \<Rightarrow>
     (int \<Rightarrow> int \<Rightarrow> tile option \<Rightarrow> bool) \<Rightarrow> (cell \<times> cell list) list \<Rightarrow> cell set \<Rightarrow> cell option" where
  "bfs_loop w h walkable tile_at target_predicate [] visited = None"
| "bfs_loop w h walkable tile_at target_predicate ((c, path) # queue) visited =
     (if target_predicate (fst c) (snd c) (tile_at (fst c) (snd c))
      then Some (if path = [] then (0, 0) else hd path)
      else bfs_loop w h walkable tile_at target_predicate
             (fst (foldl (visit_neighbour w h walkable c path) (queue, visited) directions))
             (snd (foldl (visit_neighbour w h walkable c path) (queue, visited) directions)))"
  by pat_completeness auto
termination
proof (relation "measure (\<lambda>(w, h, walkable, tile_at, target_predicate, queue, visited).
                   bfs_measure w h (queue, visited))")
  show "wf (measure (\<lambda>(w, h, walkable, tile_at, target_predicate, queue, visited).
                   bfs_measure w h (queue, visited)))" by simp
next
  fix w h :: int and walkable :: "int \<Rightarrow> int \<Rightarrow> bool" and tile_at :: "int \<Rightarrow> int \<Rightarrow> tile option"
    and target_predicate :: "int \<Rightarrow> int \<Rightarrow> tile option \<Rightarrow> bool"
    and c :: cell and path :: "cell list" and queue :: "(cell \<times> cell list) list"
    and visited :: "cell set"
  let ?r = "foldl (visit_neighbour w h walkable c path) (queue, visited) directions"
  have "bfs_measure w h ?r \<le> bfs_measure w h (queue, visited)"
    by (rule foldl_visit_measure)
  also have "\<dots> < bfs_measure w h ((c, path) # queue, visited)"
    by (simp add: bfs_measure_def)
  finally show "((w, h, walkable, tile_at, target_predicate, fst ?r, snd ?r),
                 (w, h, walkable, tile_at, target_predicate, (c, path) # queue, visited))
      \<in> measure (\<lambda>(w, h, walkable, tile_at, target_predicate, queue, visited).
                   bfs_measure w h (queue, visited))"
    by simp
qed

text \<open>
  Reachability as the specification words it: the start is reachable, and so is every
  cell within bounds and walkable that is one of the four moves away from a reachable
  cell.  \<^verbatim>\<open>bfs_inv\<close> is the invariant of the loop.
\<close>

definition step_cell :: "cell \<Rightarrow> cell \<Rightarrow> cell" where
  "step_cell c d = (fst c + fst d, snd c + snd d)"

definition enterable :: "int \<Rightarrow> int \<Rightarrow> (int \<Rightarrow> int \<Rightarrow> bool) \<Rightarrow> cell \<Rightarrow> bool" where
  "enterable w h walkable n \<longleftrightarrow>
     0 \<le> fst n \<and> fst n < w \<and> 0 \<le> snd n \<and> snd n < h \<and> walkable (fst n) (snd n)"

inductive reachable :: "int \<Rightarrow> int \<Rightarrow> (int \<Rightarrow> int \<Rightarrow> bool) \<Rightarrow> cell \<Rightarrow> cell \<Rightarrow> bool"
  for w h walkable start where
  reach_start: "reachable w h walkable start start"
| reach_step: "reachable w h walkable start c \<Longrightarrow> d \<in> set directions \<Longrightarrow>
     enterable w h walkable (step_cell c d) \<Longrightarrow> reachable w h walkable start (step_cell c d)"

definition bfs_inv ::
  "int \<Rightarrow> int \<Rightarrow> (int \<Rightarrow> int \<Rightarrow> bool) \<Rightarrow> (cell \<Rightarrow> bool) \<Rightarrow> cell \<Rightarrow>
     (cell \<times> cell list) list \<Rightarrow> cell set \<Rightarrow> bool" where
  "bfs_inv w h walkable goal start queue visited \<longleftrightarrow>
     start \<in> visited
   \<and> fst ` set queue \<subseteq> visited
   \<and> (\<forall>c \<in> visited. reachable w h walkable start c)
   \<and> (\<forall>c \<in> visited - fst ` set queue.
         \<not> goal c \<and> (\<forall>d \<in> set directions.
                        enterable w h walkable (step_cell c d) \<longrightarrow> step_cell c d \<in> visited))"


subsection \<open>The controller and the bot\<close>

text \<open>
  The controller is a snapshot of the turn: in every branch of \<^verbatim>\<open>play_turn\<close> all reads
  come before the one action that may change the world.  \<^verbatim>\<open>get_tile c x y\<close> stands for
  \<^verbatim>\<open>controller.get_tile(controller.get_team(), x, y)\<close>, the only way the source calls it;
  \<^verbatim>\<open>buy_cost\<close> gives \<^verbatim>\<open>ShopCosts.PAN.buy_cost\<close>, \<^verbatim>\<open>FoodType.MEAT.buy_cost\<close>,
  \<^verbatim>\<open>ShopCosts.PLATE.buy_cost\<close> and \<^verbatim>\<open>FoodType.NOODLES.buy_cost\<close>; \<^verbatim>\<open>action_result\<close> is the
  truth value the controller returns for an action that is attempted.  The fields of
  \<^verbatim>\<open>bot_player\<close> are the attributes set by \<^verbatim>\<open>__init__\<close>.  Unpacking \<^verbatim>\<open>None\<close> into two
  names raises \<^verbatim>\<open>TypeError\<close>.
\<close>

datatype buyable = PAN | MEAT | PLATE | NOODLES

datatype action =
    Move int int int
  | Place int int int
  | Buy int buyable int int
  | Chop int int int
  | Pickup int int int
  | Add_food_to_plate int int int
  | Take_from_pan int int int
  | Submit int int int
  | Trash int int int

record bot_state =
  bot_x :: int
  bot_y :: int
  holding :: "item option"

record controller =
  get_team_bot_ids :: "int list"
  get_orders :: "order list"
  get_turn :: int
  get_bot_state :: "int \<Rightarrow> bot_state"
  get_tile :: "int \<Rightarrow> int \<Rightarrow> tile option"
  get_map :: game_map
  get_team_money :: int
  buy_cost :: "buyable \<Rightarrow> int"
  all_food_types :: "food_type list"
  COOK_PROGRESS :: real
  action_result :: "action \<Rightarrow> bool"

record bot_player =
  self_map :: game_map
  assembly_counter :: "cell option"
  cooker_loc :: "cell option"
  my_bot_id :: "int option"
  current_order_id :: "int option"
  has_printed_priority :: bool
  seen_order_ids :: "int set"
  seen_active_order_ids :: "int set"
  state :: int

datatype py_error = TypeError

definition get_bfs_path ::
  "bot_player \<Rightarrow> controller \<Rightarrow> cell \<Rightarrow> (int \<Rightarrow> int \<Rightarrow> tile option \<Rightarrow> bool) \<Rightarrow> cell option" where
  "get_bfs_path self controller start target_predicate =
     bfs_loop (width (self_map self)) (height (self_map self))
       (is_tile_walkable (get_map controller)) (get_tile controller) target_predicate
       [(start, [])] {start}"

definition move_towards ::
  "bot_player \<Rightarrow> controller \<Rightarrow> int \<Rightarrow> int \<Rightarrow> int \<Rightarrow> bool \<times> action list" where
  "move_towards self controller bot_id tx ty =
     (let st = get_bot_state controller bot_id; bx = bot_x st; by' = bot_y st
      in if max \<bar>bx - tx\<bar> \<bar>by' - ty\<bar> \<le> 1 then (True, [])
         else (case get_bfs_path self controller (bx, by')
                      (\<lambda>x y t. max \<bar>x - tx\<bar> \<bar>y - ty\<bar> \<le> 1) of
                 None \<Rightarrow> (False, [])
               | Some step \<Rightarrow>
                   if step \<noteq> (0, 0) then (False, [Move bot_id (fst step) (snd step)])
                   else (False, [])))"

text \<open>\<^verbatim>\<open>find_nearest_tile\<close>, lines 71 to 84: \<^verbatim>\<open>nearer_tile\<close> is the body of its loops.\<close>

definition nearer_tile ::
  "controller \<Rightarrow> int \<Rightarrow> int \<Rightarrow> string \<Rightarrow> cell option \<times> int \<Rightarrow> cell \<Rightarrow> cell option \<times> int" where
  "nearer_tile controller bx by' name bb xy =
     (case (bb, xy) of ((best, best_dist), (x, y)) \<Rightarrow>
        if tile_name (tiles (get_map controller) x y) = name
        then (let d = max \<bar>bx - x\<bar> \<bar>by' - y\<bar>
              in if d < best_dist then (Some (x, y), d) else (best, best_dist))
        else (best, best_dist))"

definition find_nearest_tile :: "controller \<Rightarrow> int \<Rightarrow> int \<Rightarrow> string \<Rightarrow> cell option" where
  "find_nearest_tile controller bx by' name =
     fst (foldl (nearer_tile controller bx by' name) (None, 9999)
            (concat (map (\<lambda>x. map (\<lambda>y. (x, y)) [0 ..  height (get_map controller) - 1])
                         [0 .. width (get_map controller) - 1])))"

subsection \<open>The state machine (lines 161 to 298)\<close>

text \<open>
  A branch of the state machine gives the next value of \<^verbatim>\<open>self.state\<close>, the actions it
  attempted, in order, and the exception it raised, if any.  A name is truthy when it is
  not \<^verbatim>\<open>None\<close>: \<^verbatim>\<open>holding\<close>, \<^verbatim>\<open>tile\<close>, \<^verbatim>\<open>tile.item\<close> and \<^verbatim>\<open>tile.item.food\<close> are objects.
\<close>

type_synonym fsm_out = "int \<times> action list \<times> py_error option"

definition pan_on_tile :: "tile option \<Rightarrow> bool" where
  "pan_on_tile t = (case t of None \<Rightarrow> False
                    | Some tt \<Rightarrow> (case item tt of Some (Pan f) \<Rightarrow> True | _ \<Rightarrow> False))"

definition pan_food :: "tile option \<Rightarrow> food option" where
  "pan_food t = (case t of None \<Rightarrow> None
                 | Some tt \<Rightarrow> (case item tt of Some (Pan f) \<Rightarrow> f | _ \<Rightarrow> None))"

text \<open>State 0 looks for a pan on the cooker; state 1 buys a pan or places the one held.\<close>

definition state_0 :: "controller \<Rightarrow> cell \<Rightarrow> fsm_out" where
  "state_0 controller cooker =
     (case cooker of (kx, ky) \<Rightarrow>
        (if pan_on_tile (get_tile controller kx ky) then 2 else 1, [], None))"

definition state_1 ::
  "bot_player \<Rightarrow> controller \<Rightarrow> int \<Rightarrow> int \<Rightarrow> int \<Rightarrow> item option \<Rightarrow> cell \<Rightarrow> fsm_out" where
  "state_1 self controller bot_id bx by' held cooker =
     (case cooker of (kx, ky) \<Rightarrow>
        if held \<noteq> None then
          (case move_towards self controller bot_id kx ky of (arrived, acts) \<Rightarrow>
             if arrived then (2, acts @ [Place bot_id kx ky], None) else (1, acts, None))
        else
          (case find_nearest_tile controller bx by' ''SHOP'' of
             None \<Rightarrow> (1, [], Some TypeError)
           | Some (sx, sy) \<Rightarrow>
               (case move_towards self controller bot_id sx sy of (arrived, acts) \<Rightarrow>
                  if arrived then
                    (if buy_cost controller PAN \<le> get_team_money controller
                     then (1, acts @ [Buy bot_id PAN sx sy], None)
                     else (1, acts, None))
                  else (1, acts, None))))"

text \<open>States 2, 8 and 10: the same statements with another item, and other state numbers.\<close>

definition state_buy ::
  "bot_player \<Rightarrow> controller \<Rightarrow> int \<Rightarrow> int \<Rightarrow> int \<Rightarrow> buyable \<Rightarrow> int \<Rightarrow> int \<Rightarrow> fsm_out" where
  "state_buy self controller bot_id bx by' what here next =
     (case find_nearest_tile controller bx by' ''SHOP'' of
        None \<Rightarrow> (here, [], Some TypeError)
      | Some (sx, sy) \<Rightarrow>
          (case move_towards self controller bot_id sx sy of (arrived, acts) \<Rightarrow>
             if arrived then
               (if buy_cost controller what \<le> get_team_money controller
                then (if action_result controller (Buy bot_id what sx sy) then next else here,
                      acts @ [Buy bot_id what sx sy], None)
                else (here, acts, None))
             else (here, acts, None)))"

text \<open>States 3, 6 and 9: place, and the next state whatever \<^verbatim>\<open>place\<close> returns.\<close>

definition state_place ::
  "bot_player \<Rightarrow> controller \<Rightarrow> int \<Rightarrow> cell \<Rightarrow> int \<Rightarrow> int \<Rightarrow> fsm_out" where
  "state_place self controller bot_id target here next =
     (case target of (tx, ty) \<Rightarrow>
        (case move_towards self controller bot_id tx ty of (arrived, acts) \<Rightarrow>
           if arrived then (next, acts @ [Place bot_id tx ty], None) else (here, acts, None)))"

text \<open>States 4, 5, 11, 13 and 14: one action at the counter, the next state when it succeeds.\<close>

definition state_act ::
  "bot_player \<Rightarrow> controller \<Rightarrow> int \<Rightarrow> cell \<Rightarrow> (int \<Rightarrow> int \<Rightarrow> int \<Rightarrow> action) \<Rightarrow> int \<Rightarrow> int \<Rightarrow> fsm_out" where
  "state_act self controller bot_id target act here next =
     (case target of (tx, ty) \<Rightarrow>
        (case move_towards self controller bot_id tx ty of (arrived, acts) \<Rightarrow>
           if arrived
           then (if action_result controller (act bot_id tx ty) then next else here,
                 acts @ [act bot_id tx ty], None)
           else (here, acts, None)))"

text \<open>State 12: wait at the cooker until the food in the pan has cooked stage 1.\<close>

definition state_12 :: "bot_player \<Rightarrow> controller \<Rightarrow> int \<Rightarrow> cell \<Rightarrow> fsm_out" where
  "state_12 self controller bot_id cooker =
     (case cooker of (kx, ky) \<Rightarrow>
        (case move_towards self controller bot_id kx ky of (arrived, acts) \<Rightarrow>
           if arrived then
             (case pan_food (get_tile controller kx ky) of
                None \<Rightarrow> (12, acts, None)
              | Some f \<Rightarrow>
                  if cooked_stage f = 1
                  then (13, acts @ [Take_from_pan bot_id kx ky], None)
                  else (12, acts, None))
           else (12, acts, None)))"

text \<open>State 15: submit at the nearest submit tile.\<close>

definition state_15 :: "bot_player \<Rightarrow> controller \<Rightarrow> int \<Rightarrow> int \<Rightarrow> int \<Rightarrow> fsm_out" where
  "state_15 self controller bot_id bx by' =
     (case find_nearest_tile controller bx by' ''SUBMIT'' of
        None \<Rightarrow> (15, [], Some TypeError)
      | Some (ux, uy) \<Rightarrow>
          (case move_towards self controller bot_id ux uy of (arrived, acts) \<Rightarrow>
             if arrived
             then (if action_result controller (Submit bot_id ux uy) then 17 else 15,
                   acts @ [Submit bot_id ux uy], None)
             else (15, acts, None)))"

text \<open>State 17: the cleanup; every branch but the last ends the turn in state 17.\<close>

definition state_17 ::
  "bot_player \<Rightarrow> controller \<Rightarrow> int \<Rightarrow> int \<Rightarrow> int \<Rightarrow> item option \<Rightarrow> cell \<Rightarrow> cell \<Rightarrow> fsm_out" where
  "state_17 self controller bot_id bx by' held counter cooker =
     (case (counter, cooker) of ((cx, cy), (kx, ky)) \<Rightarrow>
        (case held of
           Some (Pan f) \<Rightarrow>
             (case move_towards self controller bot_id kx ky of (arrived, acts) \<Rightarrow>
                (17, if arrived then acts @ [Place bot_id kx ky] else acts, None))
         | Some other \<Rightarrow>
             (case find_nearest_tile controller bx by' ''TRASH'' of
                None \<Rightarrow> (17, [], Some TypeError)
              | Some (tx, ty) \<Rightarrow>
                  (case move_towards self controller bot_id tx ty of (arrived, acts) \<Rightarrow>
                     (17, if arrived then acts @ [Trash bot_id tx ty] else acts, None)))
         | None \<Rightarrow>
             if pan_food (get_tile controller kx ky) \<noteq> None
             then (17, [Take_from_pan bot_id kx ky], None)
             else if (case get_tile controller cx cy of None \<Rightarrow> False
                      | Some tt \<Rightarrow> item tt \<noteq> None)
             then (17, [Pickup bot_id cx cy], None)
             else (0, [], None)))"

text \<open>The \<^verbatim>\<open>if\<close> chain over \<^verbatim>\<open>self.state\<close>; no branch handles 7, 16 or any other number.\<close>

definition run_state ::
  "bot_player \<Rightarrow> controller \<Rightarrow> int \<Rightarrow> int \<Rightarrow> int \<Rightarrow> item option \<Rightarrow> cell \<Rightarrow> cell \<Rightarrow> fsm_out" where
  "run_state self controller bot_id bx by' held counter cooker =
     (if state self = 0 then state_0 controller cooker
      else if state self = 1 then state_1 self controller bot_id bx by' held cooker
      else if state self = 2 then state_buy self controller bot_id bx by' MEAT 2 3
      else if state self = 3 then state_place self controller bot_id counter 3 4
      else if state self = 4 then state_act self controller bot_id counter Chop 4 5
      else if state self = 5 then state_act self controller bot_id counter Pickup 5 6
      else if state self = 6 then state_place self controller bot_id cooker 6 8
      else if state self = 8 then state_buy self controller bot_id bx by' PLATE 8 9
      else if state self = 9 then state_place self controller bot_id counter 9 10
      else if state self = 10 then state_buy self controller bot_id bx by' NOODLES 10 11
      else if state self = 11 then state_act self controller bot_id counter Add_food_to_plate 11 12
      else if state self = 12 then state_12 self controller bot_id cooker
      else if state self = 13 then state_act self controller bot_id counter Add_food_to_plate 13 14
      else if state self = 14 then state_act self controller bot_id counter Pickup 14 15
      else if state self = 15 then state_15 self controller bot_id bx by'
      else if state self = 17 then state_17 self controller bot_id bx by' held counter cooker
      else (state self, [], None))"


subsection \<open>The turn (\<^verbatim>\<open>play_turn\<close>, lines 89 to 298)\<close>

text \<open>
  A turn returns the bot with its attributes as the turn leaves them, the actions
  attempted, what was printed (the label, the turn and the queue, when the queue was
  printed) and the exception raised, if any.  \<^verbatim>\<open>play_turn_priority\<close> is lines 93 to 142:
  the table of preparation times is built by the same loop as in \<^verbatim>\<open>order_priority.py\<close>.
\<close>

record turn_result =
  bot_after :: bot_player
  actions :: "action list"
  printed :: "(string \<times> int \<times> scored_order list) option"
  raised :: "py_error option"

definition bot_config :: "controller \<Rightarrow> priority_config" where
  "bot_config controller =
     \<lparr>prep_time_by_food =
        Some (build_default_prep_time_by_food (all_food_types controller) (COOK_PROGRESS controller)),
      default_prep_time = 1, value_weight = 2, urgency_weight = 2, slack_weight = 3 / 2,
      activation_weight = 1, allow_inactive = True, allow_claimed = False\<rparr>"

definition play_turn_priority ::
  "bot_player \<Rightarrow> controller \<Rightarrow> bot_player \<times> (string \<times> int \<times> scored_order list) option" where
  "play_turn_priority self controller =
     (let prioritized = build_order_priority_queue (all_food_types controller)
            (COOK_PROGRESS controller) (get_orders controller) (get_turn controller)
            (bot_config controller);
          current_ids = set (map order_id prioritized);
          current_active_ids = set (map order_id (filter order_is_active prioritized));
          is_first_print = (\<not> has_printed_priority self);
          has_new_orders = (current_ids - seen_order_ids self \<noteq> {});
          has_new_active = (current_active_ids - seen_active_order_ids self \<noteq> {});
          printing = (is_first_print \<or> (has_new_orders \<and> 0 < get_turn controller)
                      \<or> has_new_active);
          label = (if is_first_print then ''Initial'' else ''Updated'');
          active_order = find order_is_active prioritized;
          selected = (case active_order of
                        Some ao \<Rightarrow> Some ao
                      | None \<Rightarrow> (case prioritized of [] \<Rightarrow> None | p # ps \<Rightarrow> Some p))
      in (self\<lparr>has_printed_priority := (printing \<or> has_printed_priority self),
               seen_order_ids := seen_order_ids self \<union> current_ids,
               seen_active_order_ids := seen_active_order_ids self \<union> current_active_ids,
               current_order_id := map_option order_id selected\<rparr>,
          if printing then Some (label, get_turn controller, prioritized) else None))"

text \<open>Lines 150 to 153: each of the two locations is searched only while it is \<^verbatim>\<open>None\<close>.\<close>

definition cache_locations :: "bot_player \<Rightarrow> controller \<Rightarrow> int \<Rightarrow> int \<Rightarrow> bot_player" where
  "cache_locations self controller bx by' =
     (let self1 = (if assembly_counter self = None
                   then self\<lparr>assembly_counter := find_nearest_tile controller bx by' ''COUNTER''\<rparr>
                   else self)
      in if cooker_loc self1 = None
         then self1\<lparr>cooker_loc := find_nearest_tile controller bx by' ''COOKER''\<rparr>
         else self1)"

text \<open>
  Lines 144 to 298.  A location that is \<^verbatim>\<open>None\<close> ends the turn; a tuple of two numbers is
  never falsy.
\<close>

definition play_turn_fsm ::
  "bot_player \<Rightarrow> controller \<Rightarrow> int \<Rightarrow> bot_player \<times> action list \<times> py_error option" where
  "play_turn_fsm self controller bot_id =
     (let self1 = self\<lparr>my_bot_id := Some bot_id\<rparr>;
          bot = get_bot_state controller bot_id;
          bx = bot_x bot; by' = bot_y bot;
          self2 = cache_locations self1 controller bx by'
      in case assembly_counter self2 of
           None \<Rightarrow> (self2, [], None)
         | Some counter \<Rightarrow>
             (case cooker_loc self2 of
                None \<Rightarrow> (self2, [], None)
              | Some cooker \<Rightarrow>
                  (case run_state self2 controller bot_id bx by' (holding bot) counter cooker of
                     (st, acts, err) \<Rightarrow> (self2\<lparr>state := st\<rparr>, acts, err))))"

definition play_turn :: "bot_player \<Rightarrow> controller \<Rightarrow> turn_result" where
  "play_turn self controller =
     (case get_team_bot_ids controller of
        [] \<Rightarrow> \<lparr>bot_after = self, actions = [], printed = None, raised = None\<rparr>
      | bot_id # others \<Rightarrow>
          (case play_turn_priority self controller of (self1, out) \<Rightarrow>
             (case play_turn_fsm self1 controller bot_id of (self2, acts, err) \<Rightarrow>
                \<lparr>bot_after = self2, actions = acts, printed = out, raised = err\<rparr>)))"

text \<open>The first move of every queued path, as the search keeps it.\<close>

definition path_inv ::
  "int \<Rightarrow> int \<Rightarrow> (int \<Rightarrow> int \<Rightarrow> bool) \<Rightarrow> cell \<Rightarrow> (cell \<times> cell list) list \<Rightarrow> bool" where
  "path_inv w h walkable start queue \<longleftrightarrow>
     (\<forall>e \<in> set queue.
        (snd e = [] \<and> fst e = start)
      \<or> (snd e \<noteq> [] \<and> hd (snd e) \<in> set directions
           \<and> enterable w h walkable (step_cell start (hd (snd e)))))"

text \<open>A corridor of four cells with a counter, a cooker and one bot.\<close>

definition demo_map :: "(int \<Rightarrow> int \<Rightarrow> bool) \<Rightarrow> game_map" where
  "demo_map walk =
     \<lparr>width = 4, height = 1,
      tiles = (\<lambda>x y. \<lparr>tile_name = (if x = 0 then ''COUNTER'' else if x = 2 then ''COOKER''
                                    else ''FLOOR''),
                      item = None\<rparr>),
      is_tile_walkable = walk\<rparr>"

definition demo_bot :: "int \<Rightarrow> bot_player" where
  "demo_bot st =
     \<lparr>self_map = demo_map (\<lambda>x y. True), assembly_counter = None, cooker_loc = None,
      my_bot_id = None, current_order_id = None, has_printed_priority = False,
      seen_order_ids = {}, seen_active_order_ids = {}, state = st\<rparr>"

definition demo_controller :: "(int \<Rightarrow> int \<Rightarrow> bool) \<Rightarrow> item option \<Rightarrow> item option \<Rightarrow> controller" where
  "demo_controller walk cooker_item held =
     \<lparr>get_team_bot_ids = [7], get_orders = demo_orders, get_turn = 0,
      get_bot_state = (\<lambda>i. \<lparr>bot_x = 1, bot_y = 0, holding = held\<rparr>),
      get_tile = (\<lambda>x y. Some ((tiles (demo_map walk) x y)
                               \<lparr>item := (if x = 2 then cooker_item else None)\<rparr>)),
      get_map = demo_map walk, get_team_money = 100, buy_cost = (\<lambda>b. 5),
      all_food_types = [], COOK_PROGRESS = 1, action_result = (\<lambda>a. False)\<rparr>"

text \<open>The actions whose result the source tests before it changes the state.\<close>

definition checked_action :: "action \<Rightarrow> bool" where
  "checked_action a =
     (case a of Buy b w x y \<Rightarrow> True | Chop b x y \<Rightarrow> True | Pickup b x y \<Rightarrow> True
      | Add_food_to_plate b x y \<Rightarrow> True | Submit b x y \<Rightarrow> True | _ \<Rightarrow> False)"

text \<open>The fields of the bot that the state machine reads.\<close>

definition same_control :: "bot_player \<Rightarrow> bot_player \<Rightarrow> bool" where
  "same_control s1 s2 \<longleftrightarrow>
     self_map s1 = self_map s2 \<and> assembly_counter s1 = assembly_counter s2
   \<and> cooker_loc s1 = cooker_loc s2 \<and> state s1 = state s2"

text \<open>A bot waiting at the cooker, and a pan holding food of a given cooked stage.\<close>

definition demo_waiting :: bot_player where
  "demo_waiting = (demo_bot 12)\<lparr>assembly_counter := Some (0, 0), cooker_loc := Some (2, 0)\<rparr>"

definition demo_pan :: "int \<Rightarrow> item option" where
  "demo_pan k = Some (Pan (Some \<lparr>cooked_stage = k\<rparr>))"


section \<open>Properties of the order queue\<close>

lemma mset_sort_reverse: "mset (sort_reverse f xs) = mset xs"
  by (simp add: sort_reverse_def)

lemma set_sort_reverse: "set (sort_reverse f xs) = set xs"
  by (simp add: sort_reverse_def)

lemma sorted_wrt_sort_reverse: "sorted_wrt (\<lambda>a b. f b \<le> f a) (sort_reverse f xs)"
proof -
  have "sorted (map f (sort_key f (rev xs)))" by (rule sorted_sort_key)
  then have "sorted_wrt (\<lambda>a b. f a \<le> f b) (sort_key f (rev xs))"
    by (simp add: sorted_map)
  then show ?thesis
    unfolding sort_reverse_def by (simp add: sorted_wrt_rev)
qed

lemma sort_reverse_nth_ge:
  "i < j \<Longrightarrow> j < length (sort_reverse f xs) \<Longrightarrow>
     f (sort_reverse f xs ! j) \<le> f (sort_reverse f xs ! i)"
  using sorted_wrt_sort_reverse [of f xs] by (simp add: sorted_wrt_iff_nth_less)

lemma set_collect_prioritized:
  "set (collect_prioritized fts cp cfg t orders) =
     score_order fts cp cfg t ` {ord \<in> set orders. survives cfg t ord}"
  by (induction orders) auto

lemma collect_prioritized_eq:
  "collect_prioritized fts cp cfg t orders =
     map (score_order fts cp cfg t) (filter (survives cfg t) orders)"
  by (induction orders) auto

lemma set_queue:
  "set (build_order_priority_queue fts cp orders t cfg)
     = score_order fts cp cfg t ` {ord \<in> set orders. survives cfg t ord}"
  by (simp add: build_order_priority_queue_def set_sort_reverse set_collect_prioritized)

lemma truncate_score_order: "order.truncate (score_order fts cp cfg t ord) = ord"
  by (simp add: score_order_def Let_def order.truncate_def order.extend_def)

lemma score_order_id: "order_id (score_order fts cp cfg t ord) = order_id ord"
  by (simp add: score_order_def Let_def order.extend_def)

lemma score_order_fields:
  "turns_left (score_order fts cp cfg t ord) = expires_turn ord - t"
  "estimated_prep (score_order fts cp cfg t ord) =
     estimate_prep_turns fts cp (case required ord of None \<Rightarrow> [] | Some r \<Rightarrow> r)
       (prep_time_by_food cfg) (default_prep_time cfg)"
  "slack (score_order fts cp cfg t ord) =
     real_of_int (turns_left (score_order fts cp cfg t ord))
       - estimated_prep (score_order fts cp cfg t ord)"
  "reward (score_order fts cp cfg t ord) = reward ord"
  "penalty (score_order fts cp cfg t ord) = penalty ord"
  "created_turn (score_order fts cp cfg t ord) = created_turn ord"
  "is_active (score_order fts cp cfg t ord) = is_active ord"
  "claimed_by (score_order fts cp cfg t ord) = claimed_by ord"
  "completed_turn (score_order fts cp cfg t ord) = completed_turn ord"
  "expires_turn (score_order fts cp cfg t ord) = expires_turn ord"
  by (simp_all add: score_order_def Let_def order.extend_def scored_order.fields_def)

lemma score_order_active:
  "order_is_active (score_order fts cp cfg t ord) = order_is_active ord"
  by (simp add: order_is_active_def score_order_fields)

lemma score_order_spec:
  "priority_score (score_order fts cp cfg t ord)
     = spec_priority_score cfg t (score_order fts cp cfg t ord)"
  unfolding spec_priority_score_def score_order_active score_order_fields
  by (simp add: score_order_def Let_def order.extend_def scored_order.fields_def)

lemma tuple4_less:
  fixes a a' :: real and b b' c c' d d' :: int
  shows "(a, b, c, d) < (a', b', c', d') \<longleftrightarrow>
     a < a' \<or> (a = a' \<and> (b < b' \<or> (b = b' \<and> (c < c' \<or> (c = c' \<and> d < d')))))"
  unfolding less_prod_def less_eq_prod_def fst_conv snd_conv by linarith

lemma outranks_key: "outranks a b \<longleftrightarrow> priority_key b < priority_key a"
  unfolding outranks_def priority_key_def Let_def tuple4_less by linarith

lemma distinct_ids_queue:
  assumes "distinct (map order_id orders)"
  shows "distinct (map order_id (build_order_priority_queue fts cp orders t cfg))"
proof -
  have "map order_id (collect_prioritized fts cp cfg t orders)
          = map order_id (filter (survives cfg t) orders)"
    by (simp add: collect_prioritized_eq score_order_id o_def)
  moreover have "distinct (map order_id (filter (survives cfg t) orders))"
    using assms by (rule distinct_map_filter)
  ultimately have "distinct (map order_id (collect_prioritized fts cp cfg t orders))"
    by simp
  moreover have "mset (map order_id (build_order_priority_queue fts cp orders t cfg))
      = mset (map order_id (collect_prioritized fts cp cfg t orders))"
    by (simp add: build_order_priority_queue_def mset_sort_reverse)
  ultimately show ?thesis
    by (metis mset_eq_imp_distinct_iff)
qed

lemma demo_queue:
  "build_order_priority_queue [] 1 demo_orders 0 demo_cfg
   = [score_order [] 1 demo_cfg 0 (demo_order 3 True 20 0),
      score_order [] 1 demo_cfg 0 (demo_order 1 True 10 0),
      score_order [] 1 demo_cfg 0 (demo_order 2 False 10 5)]"
  by (simp add: build_order_priority_queue_def sort_reverse_def survives_def demo_cfg_def
      demo_order_def demo_orders_def order_is_active_def priority_key_def score_order_def Let_def
      estimate_prep_turns_def build_default_prep_time_by_food_def order.extend_def
      scored_order.fields_def less_eq_prod_def)

lemma demo_scores:
  "priority_score (score_order [] 1 demo_cfg 0 (demo_order 3 True 20 0)) = 101 / 5"
  "priority_score (score_order [] 1 demo_cfg 0 (demo_order 1 True 10 0)) = 51 / 5"
  "priority_score (score_order [] 1 demo_cfg 0 (demo_order 2 False 10 5)) = - 5"
  by (simp_all add: demo_cfg_def demo_order_def order_is_active_def score_order_def Let_def
      estimate_prep_turns_def build_default_prep_time_by_food_def order.extend_def
      scored_order.fields_def)

text \<open>
  C1 (as amended).  The queue is sorted descending by (priority score, minus turns left,
  created turn, order id): no later entry outranks an earlier one, and an entry that
  outranks another stands before it.  When the order ids of the input are pairwise
  different no two keys coincide, and an entry precedes another exactly when it outranks
  it.
\<close>

theorem queue_sorted_descending:
  fixes fts cp orders t cfg and out :: "scored_order list"
  defines "out \<equiv> build_order_priority_queue fts cp orders t cfg"
  shows "(\<forall>i j. i < j \<and> j < length out \<longrightarrow> \<not> outranks (out ! j) (out ! i))
       \<and> (\<forall>i j. i < length out \<and> j < length out \<and> outranks (out ! i) (out ! j) \<longrightarrow> i < j)
       \<and> (distinct (map order_id orders) \<longrightarrow>
            (\<forall>i j. i < length out \<and> j < length out \<longrightarrow>
                   (i < j \<longleftrightarrow> outranks (out ! i) (out ! j))))"
proof -
  have ge: "priority_key (out ! j) \<le> priority_key (out ! i)" if "i < j" "j < length out" for i j
    using that unfolding out_def build_order_priority_queue_def by (rule sort_reverse_nth_ge)
  have c1: "\<not> outranks (out ! j) (out ! i)" if "i < j" "j < length out" for i j
    using ge [OF that] by (simp add: outranks_key not_less)
  have c2: "i < j" if "i < length out" "j < length out" "outranks (out ! i) (out ! j)" for i j
  proof (rule ccontr)
    assume "\<not> i < j"
    then consider "i = j" | "j < i" by linarith
    then show False
    proof cases
      case 1
      with that(3) show False by (simp add: outranks_key)
    next
      case 2
      from ge [OF 2 that(1)] that(3) show False by (simp add: outranks_key)
    qed
  qed
  have c3: "outranks (out ! i) (out ! j)"
    if d: "distinct (map order_id orders)" and ij: "i < j" "j < length out" for i j
  proof -
    have "distinct (map order_id out)"
      unfolding out_def using d by (rule distinct_ids_queue)
    with ij have "order_id (out ! i) \<noteq> order_id (out ! j)"
      by (simp add: distinct_conv_nth)
    then have "priority_key (out ! i) \<noteq> priority_key (out ! j)"
      by (auto simp: priority_key_def)
    with ge [OF ij] show ?thesis by (simp add: outranks_key)
  qed
  show ?thesis using c1 c2 c3 by blast
qed

theorem queue_sorted_descending_witness:
  "distinct (map order_id demo_orders)
   \<and> length (build_order_priority_queue [] 1 demo_orders 0 demo_cfg) = 3
   \<and> map order_id (build_order_priority_queue [] 1 demo_orders 0 demo_cfg) = [3, 1, 2]
   \<and> outranks (build_order_priority_queue [] 1 demo_orders 0 demo_cfg ! 0)
               (build_order_priority_queue [] 1 demo_orders 0 demo_cfg ! 1)
   \<and> \<not> outranks (build_order_priority_queue [] 1 demo_orders 0 demo_cfg ! 2)
                 (build_order_priority_queue [] 1 demo_orders 0 demo_cfg ! 1)"
proof -
  let ?out = "build_order_priority_queue [] 1 demo_orders 0 demo_cfg"
  have d: "distinct (map order_id demo_orders)"
    by (simp add: demo_orders_def demo_order_def)
  have l: "length ?out = 3" by (simp add: demo_queue)
  have ids: "map order_id ?out = [3, 1, 2]"
    by (simp add: demo_queue score_order_id demo_order_def)
  note th = queue_sorted_descending [of "[]" 1 demo_orders 0 demo_cfg]
  from th d have c3: "\<forall>i j. i < length ?out \<and> j < length ?out \<longrightarrow>
                   (i < j \<longleftrightarrow> outranks (?out ! i) (?out ! j))" by blast
  from th have c1: "\<forall>i j. i < j \<and> j < length ?out \<longrightarrow> \<not> outranks (?out ! j) (?out ! i)"
    by blast
  have "outranks (?out ! 0) (?out ! 1)"
    using c3 [rule_format, of 0 1] l by simp
  moreover have "\<not> outranks (?out ! 2) (?out ! 1)"
    using c1 [rule_format, of 1 2] l by simp
  ultimately show ?thesis using d l ids by simp
qed

text \<open>
  The claim C1 as written fails: of two orders whose key tuples coincide one precedes the
  other, and neither outranks the other.
\<close>

theorem tied_orders_counterexample:
  "\<not> (\<forall>i j. i < length (build_order_priority_queue [] 1
                          [demo_order 1 True 10 0, demo_order 1 True 10 0] 0 demo_cfg)
             \<and> j < length (build_order_priority_queue [] 1
                          [demo_order 1 True 10 0, demo_order 1 True 10 0] 0 demo_cfg)
             \<longrightarrow> (i < j \<longleftrightarrow>
                   outranks (build_order_priority_queue [] 1
                               [demo_order 1 True 10 0, demo_order 1 True 10 0] 0 demo_cfg ! i)
                            (build_order_priority_queue [] 1
                               [demo_order 1 True 10 0, demo_order 1 True 10 0] 0 demo_cfg ! j)))"
proof -
  let ?so = "score_order [] 1 demo_cfg 0 (demo_order 1 True 10 0)"
  have q: "build_order_priority_queue [] 1
             [demo_order 1 True 10 0, demo_order 1 True 10 0] 0 demo_cfg = [?so, ?so]"
    by (simp add: build_order_priority_queue_def sort_reverse_def survives_def demo_cfg_def
        demo_order_def order_is_active_def)
  have n: "\<not> outranks ?so ?so" by (simp add: outranks_def)
  show ?thesis
    unfolding q
  proof
    assume "\<forall>i j. i < length [?so, ?so] \<and> j < length [?so, ?so]
              \<longrightarrow> (i < j \<longleftrightarrow> outranks ([?so, ?so] ! i) ([?so, ?so] ! j))"
    from this [rule_format, of 0 1] have "outranks ?so ?so" by simp
    with n show False ..
  qed
qed

text \<open>
  C2 (as amended).  Every order of the queue carries turns left = expires turn - current
  turn, the estimated preparation time of its required foods, slack = turns left -
  estimated preparation time, and a priority score equal to the specification's formula:
  for an active order value weight * value rate + urgency weight * urgency + slack
  weight * slack score - overdue penalty, for an inactive one
  - activation weight * max(0, created turn - current turn).  The score of an inactive
  order is never positive when the activation weight is not negative.
\<close>

theorem queue_scores:
  "\<forall>so \<in> set (build_order_priority_queue fts cp orders t cfg).
     turns_left so = expires_turn so - t
   \<and> estimated_prep so =
       estimate_prep_turns fts cp (case required so of None \<Rightarrow> [] | Some r \<Rightarrow> r)
         (prep_time_by_food cfg) (default_prep_time cfg)
   \<and> slack so = real_of_int (turns_left so) - estimated_prep so
   \<and> priority_score so = spec_priority_score cfg t so
   \<and> (\<not> order_is_active so \<and> 0 \<le> activation_weight cfg \<longrightarrow> priority_score so \<le> 0)"
proof
  fix so
  assume "so \<in> set (build_order_priority_queue fts cp orders t cfg)"
  then obtain ord where so: "so = score_order fts cp cfg t ord"
    by (auto simp: set_queue)
  have np: "priority_score so \<le> 0" if "\<not> order_is_active so" "0 \<le> activation_weight cfg"
  proof -
    have "priority_score so = spec_priority_score cfg t so"
      unfolding so by (rule score_order_spec)
    with that show ?thesis
      by (simp add: spec_priority_score_def Let_def mult_nonneg_nonneg)
  qed
  have rq: "required so = required ord"
    by (simp add: so score_order_def Let_def order.extend_def)
  show "turns_left so = expires_turn so - t
   \<and> estimated_prep so =
       estimate_prep_turns fts cp (case required so of None \<Rightarrow> [] | Some r \<Rightarrow> r)
         (prep_time_by_food cfg) (default_prep_time cfg)
   \<and> slack so = real_of_int (turns_left so) - estimated_prep so
   \<and> priority_score so = spec_priority_score cfg t so
   \<and> (\<not> order_is_active so \<and> 0 \<le> activation_weight cfg \<longrightarrow> priority_score so \<le> 0)"
    using np rq score_order_spec [of fts cp cfg t ord]
    by (simp add: so score_order_fields)
qed

theorem queue_scores_witness:
  "score_order [] 1 demo_cfg 0 (demo_order 2 False 10 5)
     \<in> set (build_order_priority_queue [] 1 demo_orders 0 demo_cfg)
   \<and> \<not> order_is_active (score_order [] 1 demo_cfg 0 (demo_order 2 False 10 5))
   \<and> 0 \<le> activation_weight demo_cfg
   \<and> priority_score (score_order [] 1 demo_cfg 0 (demo_order 2 False 10 5)) = - 5
   \<and> priority_score (score_order [] 1 demo_cfg 0 (demo_order 2 False 10 5))
       = spec_priority_score demo_cfg 0 (score_order [] 1 demo_cfg 0 (demo_order 2 False 10 5))"
proof -
  let ?so = "score_order [] 1 demo_cfg 0 (demo_order 2 False 10 5)"
  have m: "?so \<in> set (build_order_priority_queue [] 1 demo_orders 0 demo_cfg)"
    by (simp add: demo_queue)
  have a: "\<not> order_is_active ?so"
    unfolding score_order_active by (simp add: order_is_active_def demo_order_def)
  have w: "0 \<le> activation_weight demo_cfg" by (simp add: demo_cfg_def)
  from queue_scores [of "[]" 1 demo_orders 0 demo_cfg] m
  have "priority_score ?so = spec_priority_score demo_cfg 0 ?so" by blast
  with m a w show ?thesis by (simp add: demo_scores)
qed

text \<open>
  The claim C2 as written fails: with a negative activation weight an inactive order that
  activates five turns from now gets the positive score 5.
\<close>

theorem inactive_score_positive_counterexample:
  "\<not> (\<forall>so \<in> set (build_order_priority_queue [] 1 [demo_order 2 False 10 5] 0
                     (demo_cfg\<lparr>activation_weight := - 1\<rparr>)).
         \<not> order_is_active so \<longrightarrow> priority_score so \<le> 0)"
  by (simp add: build_order_priority_queue_def sort_reverse_def survives_def demo_cfg_def
      demo_order_def order_is_active_def score_order_def Let_def estimate_prep_turns_def
      build_default_prep_time_by_food_def order.extend_def scored_order.fields_def)

text \<open>
  C3.  For every input list and every configuration, each order of the queue has no
  completed turn, is active unless inactive orders are allowed, is unclaimed unless
  claimed orders are allowed, and has turns left = expires turn - current turn, not
  negative.  The orders of the queue, without their derived fields, are exactly the
  input orders that pass the four filters, each as often as the input lists it: exactly
  once when the input lists no order twice.
\<close>

theorem queue_filtering:
  fixes fts cp orders t cfg and out :: "scored_order list"
  defines "out \<equiv> build_order_priority_queue fts cp orders t cfg"
  shows "(\<forall>so \<in> set out.
            completed_turn so = None
          \<and> (order_is_active so \<or> allow_inactive cfg)
          \<and> (claimed_by so = None \<or> allow_claimed cfg)
          \<and> turns_left so = expires_turn so - t \<and> 0 \<le> turns_left so)
       \<and> mset (map order.truncate out) =
           mset (filter (\<lambda>ord. completed_turn ord = None
                             \<and> (order_is_active ord \<or> allow_inactive cfg)
                             \<and> (claimed_by ord = None \<or> allow_claimed cfg)
                             \<and> 0 \<le> expires_turn ord - t) orders)
       \<and> (distinct orders \<longrightarrow>
            (\<forall>ord \<in> set orders.
               completed_turn ord = None
               \<and> (order_is_active ord \<or> allow_inactive cfg)
               \<and> (claimed_by ord = None \<or> allow_claimed cfg)
               \<and> 0 \<le> expires_turn ord - t
               \<longrightarrow> count_list (map order.truncate out) ord = 1))"
proof -
  let ?P = "\<lambda>ord::order. completed_turn ord = None
                             \<and> (order_is_active ord \<or> allow_inactive cfg)
                             \<and> (claimed_by ord = None \<or> allow_claimed cfg)
                             \<and> 0 \<le> expires_turn ord - t"
  have P: "survives cfg t = ?P"
    by (auto simp: survives_def fun_eq_iff)
  have a: "completed_turn so = None
          \<and> (order_is_active so \<or> allow_inactive cfg)
          \<and> (claimed_by so = None \<or> allow_claimed cfg)
          \<and> turns_left so = expires_turn so - t \<and> 0 \<le> turns_left so" if "so \<in> set out" for so
  proof -
    from that obtain ord where "so = score_order fts cp cfg t ord" "survives cfg t ord"
      by (auto simp: out_def set_queue)
    then show ?thesis
      by (auto simp: score_order_fields score_order_active survives_def split: if_splits)
  qed
  have "mset out = mset (map (score_order fts cp cfg t) (filter (survives cfg t) orders))"
    by (simp add: out_def build_order_priority_queue_def mset_sort_reverse collect_prioritized_eq)
  then have "mset (map order.truncate out)
      = mset (map order.truncate (map (score_order fts cp cfg t) (filter (survives cfg t) orders)))"
    by (metis mset_map)
  then have b: "mset (map order.truncate out) = mset (filter ?P orders)"
    by (simp add: o_def truncate_score_order P)
  have c: "count_list (map order.truncate out) ord = 1"
    if "distinct orders" "ord \<in> set orders" "?P ord" for ord
  proof -
    have "count (mset (map order.truncate out)) ord = count (mset (filter ?P orders)) ord"
      by (simp only: b)
    also have "\<dots> = count (mset orders) ord" using that(3) by simp
    also have "\<dots> = 1" using that(1,2) by (simp add: distinct_count_atmost_1)
    finally show ?thesis by (simp only: count_mset)
  qed
  show ?thesis using a b c by blast
qed

theorem queue_filtering_witness:
  "distinct demo_mixed
   \<and> demo_order 1 True 10 0 \<in> set demo_mixed
   \<and> build_order_priority_queue [] 1 demo_mixed 0 demo_cfg
       = [score_order [] 1 demo_cfg 0 (demo_order 1 True 10 0)]
   \<and> count_list (map order.truncate (build_order_priority_queue [] 1 demo_mixed 0 demo_cfg))
         (demo_order 1 True 10 0) = 1
   \<and> completed_turn (score_order [] 1 demo_cfg 0 (demo_order 1 True 10 0)) = None
   \<and> turns_left (score_order [] 1 demo_cfg 0 (demo_order 1 True 10 0)) = 10"
proof -
  let ?out = "build_order_priority_queue [] 1 demo_mixed 0 demo_cfg"
  let ?o = "demo_order 1 True 10 0"
  have d: "distinct demo_mixed"
    by (simp add: demo_mixed_def demo_order_def)
  have m: "?o \<in> set demo_mixed"
    by (simp add: demo_mixed_def)
  have q: "?out = [score_order [] 1 demo_cfg 0 ?o]"
    by (simp add: build_order_priority_queue_def sort_reverse_def survives_def demo_cfg_def
        demo_order_def demo_mixed_def order_is_active_def)
  have p: "completed_turn ?o = None \<and> (order_is_active ?o \<or> allow_inactive demo_cfg)
           \<and> (claimed_by ?o = None \<or> allow_claimed demo_cfg) \<and> 0 \<le> expires_turn ?o - 0"
    by (simp add: demo_order_def demo_cfg_def)
  note th = queue_filtering [of "[]" 1 demo_mixed 0 demo_cfg]
  from th d m p have c: "count_list (map order.truncate ?out) ?o = 1"
    by blast
  from th have "\<forall>so \<in> set ?out. completed_turn so = None \<and> turns_left so = expires_turn so - 0"
    by blast
  then have "completed_turn (score_order [] 1 demo_cfg 0 ?o) = None
     \<and> turns_left (score_order [] 1 demo_cfg 0 ?o) = 10"
    by (simp add: q score_order_fields demo_order_def)
  with d m q c show ?thesis by simp
qed

section \<open>Properties of the breadth-first search\<close>

lemma visit_neighbour_eq:
  "visit_neighbour w h walkable c path (queue, visited) d =
     (if enterable w h walkable (step_cell c d) \<and> step_cell c d \<notin> visited
      then (queue @ [(step_cell c d, path @ [d])], insert (step_cell c d) visited)
      else (queue, visited))"
  by (cases c; cases d) (auto simp: visit_neighbour_def Let_def enterable_def step_cell_def)

lemma foldl_visit_both:
  "foldl (visit_neighbour w h walkable c path) (queue, visited) ds = (q', v') \<Longrightarrow>
     (\<exists>news. q' = queue @ news \<and> v' = visited \<union> fst ` set news
           \<and> (\<forall>e \<in> set news. \<exists>d \<in> set ds. e = (step_cell c d, path @ [d])
                                   \<and> enterable w h walkable (step_cell c d)))
     \<and> (\<forall>d \<in> set ds. enterable w h walkable (step_cell c d) \<longrightarrow> step_cell c d \<in> v')"
proof (induction ds arbitrary: queue visited)
  case Nil
  then show ?case by simp
next
  case (Cons d ds)
  obtain q1 v1 where s1: "visit_neighbour w h walkable c path (queue, visited) d = (q1, v1)"
    by (cases "visit_neighbour w h walkable c path (queue, visited) d")
  from Cons.prems have f: "foldl (visit_neighbour w h walkable c path) (q1, v1) ds = (q', v')"
    by (simp add: s1)
  from Cons.IH [OF f] obtain news where
    n: "q' = q1 @ news" "v' = v1 \<union> fst ` set news"
       "\<forall>e \<in> set news. \<exists>d \<in> set ds. e = (step_cell c d, path @ [d])
                                 \<and> enterable w h walkable (step_cell c d)"
    and cl: "\<forall>d \<in> set ds. enterable w h walkable (step_cell c d) \<longrightarrow> step_cell c d \<in> v'"
    by blast
  show ?case
  proof (cases "enterable w h walkable (step_cell c d) \<and> step_cell c d \<notin> visited")
    case True
    with s1 have e: "q1 = queue @ [(step_cell c d, path @ [d])]"
        "v1 = insert (step_cell c d) visited"
      by (simp_all add: visit_neighbour_eq)
    have "q' = queue @ ((step_cell c d, path @ [d]) # news)" using n e by simp
    moreover have "v' = visited \<union> fst ` set ((step_cell c d, path @ [d]) # news)"
      using n e by auto
    moreover have "\<forall>e \<in> set ((step_cell c d, path @ [d]) # news).
        \<exists>d' \<in> set (d # ds). e = (step_cell c d', path @ [d'])
                                 \<and> enterable w h walkable (step_cell c d')"
      using n(3) True by auto
    moreover have "\<forall>d' \<in> set (d # ds). enterable w h walkable (step_cell c d')
                     \<longrightarrow> step_cell c d' \<in> v'"
      using cl n(2) e by auto
    ultimately show ?thesis by blast
  next
    case False
    with s1 have e: "q1 = queue" "v1 = visited"
      by (auto simp: visit_neighbour_eq)
    have "q' = queue @ news" "v' = visited \<union> fst ` set news" using n e by simp_all
    moreover have "\<forall>e \<in> set news.
        \<exists>d' \<in> set (d # ds). e = (step_cell c d', path @ [d'])
                                 \<and> enterable w h walkable (step_cell c d')"
      using n(3) by auto
    moreover have "\<forall>d' \<in> set (d # ds). enterable w h walkable (step_cell c d')
                     \<longrightarrow> step_cell c d' \<in> v'"
      using cl n(2) e False by auto
    ultimately show ?thesis by blast
  qed
qed

lemma foldl_visit_props:
  assumes "foldl (visit_neighbour w h walkable c path) (queue, visited) ds = (q', v')"
  shows "\<exists>news. q' = queue @ news \<and> v' = visited \<union> fst ` set news
           \<and> (\<forall>e \<in> set news. \<exists>d \<in> set ds. e = (step_cell c d, path @ [d])
                                   \<and> enterable w h walkable (step_cell c d))"
    and "\<forall>d \<in> set ds. enterable w h walkable (step_cell c d) \<longrightarrow> step_cell c d \<in> v'"
  using foldl_visit_both [OF assms] by blast+

lemma bfs_inv_step:
  assumes inv: "bfs_inv w h walkable goal start ((c, path) # queue) visited"
    and ng: "\<not> goal c"
    and f: "foldl (visit_neighbour w h walkable c path) (queue, visited) directions = (q', v')"
  shows "bfs_inv w h walkable goal start q' v'"
proof -
  from foldl_visit_props(1) [OF f] obtain news where
    n: "q' = queue @ news" "v' = visited \<union> fst ` set news"
       "\<forall>e \<in> set news. \<exists>d \<in> set directions. e = (step_cell c d, path @ [d])
                                   \<and> enterable w h walkable (step_cell c d)"
    by blast
  note cl = foldl_visit_props(2) [OF f]
  from inv have i: "start \<in> visited" "c \<in> visited" "fst ` set queue \<subseteq> visited"
      "\<forall>c \<in> visited. reachable w h walkable start c"
      "\<forall>a \<in> visited - insert c (fst ` set queue).
         \<not> goal a \<and> (\<forall>d \<in> set directions.
                        enterable w h walkable (step_cell a d) \<longrightarrow> step_cell a d \<in> visited)"
    by (simp_all add: bfs_inv_def)
  have rc: "reachable w h walkable start c" using i by blast
  have a: "start \<in> v'" using i n by simp
  have b: "fst ` set q' \<subseteq> v'" using i n by auto
  have r: "reachable w h walkable start a" if "a \<in> v'" for a
  proof (cases "a \<in> visited")
    case True
    with i show ?thesis by blast
  next
    case False
    with that n obtain d where "d \<in> set directions" "a = step_cell c d"
        "enterable w h walkable (step_cell c d)"
      by force
    with rc show ?thesis by (auto intro: reach_step)
  qed
  have p: "\<not> goal a \<and> (\<forall>d \<in> set directions.
                        enterable w h walkable (step_cell a d) \<longrightarrow> step_cell a d \<in> v')"
    if "a \<in> v' - fst ` set q'" for a
  proof (cases "a = c")
    case True
    with ng cl show ?thesis by simp
  next
    case False
    from that n have "a \<in> visited - insert c (fst ` set queue)"
      using False by auto
    with i(5) n(2) show ?thesis by blast
  qed
  show ?thesis
    unfolding bfs_inv_def using a b r p by blast
qed

lemma bfs_inv_closed:
  assumes inv: "bfs_inv w h walkable goal start [] visited"
    and r: "reachable w h walkable start c"
  shows "c \<in> visited"
  using r
proof induction
  case reach_start
  from inv show ?case by (simp add: bfs_inv_def)
next
  case (reach_step c d)
  with inv show ?case by (simp add: bfs_inv_def)
qed

lemma bfs_loop_none_iff:
  assumes "bfs_inv w h walkable (\<lambda>c. target_predicate (fst c) (snd c) (tile_at (fst c) (snd c)))
             start queue visited"
  shows "bfs_loop w h walkable tile_at target_predicate queue visited = None \<longleftrightarrow>
         \<not> (\<exists>c. reachable w h walkable start c
                 \<and> target_predicate (fst c) (snd c) (tile_at (fst c) (snd c)))"
  using assms
proof (induction w h walkable tile_at target_predicate queue visited rule: bfs_loop.induct)
  case (1 w h walkable tile_at target_predicate visited)
  have "\<not> target_predicate (fst c) (snd c) (tile_at (fst c) (snd c))"
    if "reachable w h walkable start c" for c
  proof -
    from bfs_inv_closed [OF "1.prems" that] have "c \<in> visited" .
    with "1.prems" show ?thesis by (simp add: bfs_inv_def)
  qed
  then show ?case by auto
next
  case (2 w h walkable tile_at target_predicate c path queue visited)
  let ?goal = "\<lambda>c. target_predicate (fst c) (snd c) (tile_at (fst c) (snd c))"
  show ?case
  proof (cases "?goal c")
    case True
    from "2.prems" have "reachable w h walkable start c" by (simp add: bfs_inv_def)
    with True have "\<exists>c. reachable w h walkable start c \<and> ?goal c" by blast
    with True show ?thesis by simp
  next
    case False
    obtain q' v' where f:
      "foldl (visit_neighbour w h walkable c path) (queue, visited) directions = (q', v')"
      by (cases "foldl (visit_neighbour w h walkable c path) (queue, visited) directions")
    have "bfs_inv w h walkable ?goal start q' v'"
      using "2.prems" False f by (rule bfs_inv_step)
    with "2.IH" [OF False] f False show ?thesis by simp
  qed
qed

lemma path_inv_step:
  assumes inv: "path_inv w h walkable start ((c, path) # queue)"
    and f: "foldl (visit_neighbour w h walkable c path) (queue, visited) directions = (q', v')"
  shows "path_inv w h walkable start q'"
proof -
  from foldl_visit_props(1) [OF f] obtain news where
    n: "q' = queue @ news"
       "\<forall>e \<in> set news. \<exists>d \<in> set directions. e = (step_cell c d, path @ [d])
                                   \<and> enterable w h walkable (step_cell c d)"
    by blast
  from inv have q: "\<forall>e \<in> set queue.
        (snd e = [] \<and> fst e = start)
      \<or> (snd e \<noteq> [] \<and> hd (snd e) \<in> set directions
           \<and> enterable w h walkable (step_cell start (hd (snd e))))"
    and c: "(path = [] \<and> c = start)
      \<or> (path \<noteq> [] \<and> hd path \<in> set directions
           \<and> enterable w h walkable (step_cell start (hd path)))"
    by (simp_all add: path_inv_def)
  have "snd e \<noteq> [] \<and> hd (snd e) \<in> set directions
           \<and> enterable w h walkable (step_cell start (hd (snd e)))" if "e \<in> set news" for e
  proof -
    from n(2) that obtain d where d: "d \<in> set directions" "e = (step_cell c d, path @ [d])"
        "enterable w h walkable (step_cell c d)"
      by blast
    from c show ?thesis
    proof
      assume "path = [] \<and> c = start"
      with d show ?thesis by simp
    next
      assume "path \<noteq> [] \<and> hd path \<in> set directions
           \<and> enterable w h walkable (step_cell start (hd path))"
      with d show ?thesis by simp
    qed
  qed
  with q show ?thesis
    unfolding path_inv_def n(1) by auto
qed

lemma bfs_loop_step:
  assumes "path_inv w h walkable start queue"
    and "bfs_loop w h walkable tile_at target_predicate queue visited = Some s"
  shows "s = (0, 0) \<or> (s \<in> set directions \<and> enterable w h walkable (step_cell start s))"
  using assms
proof (induction w h walkable tile_at target_predicate queue visited rule: bfs_loop.induct)
  case (1 w h walkable tile_at target_predicate visited)
  then show ?case by simp
next
  case (2 w h walkable tile_at target_predicate c path queue visited)
  show ?case
  proof (cases "target_predicate (fst c) (snd c) (tile_at (fst c) (snd c))")
    case True
    with "2.prems"(2) have s: "s = (if path = [] then (0, 0) else hd path)" by simp
    from "2.prems"(1) have "(path = [] \<and> c = start)
      \<or> (path \<noteq> [] \<and> hd path \<in> set directions
           \<and> enterable w h walkable (step_cell start (hd path)))"
      by (simp add: path_inv_def)
    with s show ?thesis by auto
  next
    case False
    obtain q' v' where f:
      "foldl (visit_neighbour w h walkable c path) (queue, visited) directions = (q', v')"
      by (cases "foldl (visit_neighbour w h walkable c path) (queue, visited) directions")
    have "path_inv w h walkable start q'"
      using "2.prems"(1) f by (rule path_inv_step)
    moreover from "2.prems"(2) False f
    have "bfs_loop w h walkable tile_at target_predicate q' v' = Some s" by simp
    ultimately show ?thesis using "2.IH" [OF False] f by simp
  qed
qed

lemma demo_path_some:
  "get_bfs_path (demo_bot 0) (demo_controller (\<lambda>x y. True) None None) (0, 0) (\<lambda>x y t. x = 3)
     = Some (1, 0)"
  by (simp add: get_bfs_path_def demo_bot_def demo_controller_def demo_map_def
      visit_neighbour_def directions_def)

lemma demo_path_none:
  "get_bfs_path (demo_bot 0) (demo_controller (\<lambda>x y. x \<noteq> 2) None None) (0, 0) (\<lambda>x y t. x = 3)
     = None"
  by (simp add: get_bfs_path_def demo_bot_def demo_controller_def demo_map_def
      visit_neighbour_def directions_def)

text \<open>
  C7.  \<^verbatim>\<open>get_bfs_path\<close> always returns, and it returns \<^verbatim>\<open>None\<close> exactly when no cell
  satisfying the goal predicate is reachable from the start through cells that are
  within bounds and walkable, the start itself being reachable whatever its own
  walkability; otherwise it returns a step.
\<close>

theorem get_bfs_path_unreachable:
  "get_bfs_path self controller start target_predicate = None \<longleftrightarrow>
     \<not> (\<exists>c. reachable (width (self_map self)) (height (self_map self))
               (is_tile_walkable (get_map controller)) start c
             \<and> target_predicate (fst c) (snd c) (get_tile controller (fst c) (snd c)))"
proof -
  have "bfs_inv (width (self_map self)) (height (self_map self))
          (is_tile_walkable (get_map controller))
          (\<lambda>c. target_predicate (fst c) (snd c) (get_tile controller (fst c) (snd c)))
          start [(start, [])] {start}"
    by (simp add: bfs_inv_def reach_start)
  then show ?thesis
    unfolding get_bfs_path_def by (rule bfs_loop_none_iff)
qed

theorem get_bfs_path_unreachable_witness:
  "get_bfs_path (demo_bot 0) (demo_controller (\<lambda>x y. x \<noteq> 2) None None) (0, 0)
       (\<lambda>x y t. x = 3) = None
   \<and> \<not> (\<exists>c. reachable 4 1 (\<lambda>x y. x \<noteq> 2) (0, 0) c \<and> fst c = 3)
   \<and> get_bfs_path (demo_bot 0) (demo_controller (\<lambda>x y. True) None None) (0, 0)
       (\<lambda>x y t. x = 3) = Some (1, 0)
   \<and> (\<exists>c. reachable 4 1 (\<lambda>x y. True) (0, 0) c \<and> fst c = 3)"
proof -
  have a: "\<not> (\<exists>c. reachable 4 1 (\<lambda>x y. x \<noteq> 2) (0, 0) c \<and> fst c = 3)"
    using get_bfs_path_unreachable [of "demo_bot 0" "demo_controller (\<lambda>x y. x \<noteq> 2) None None"
        "(0, 0)" "\<lambda>x y t. x = 3"] demo_path_none
    by (simp add: demo_bot_def demo_controller_def demo_map_def)
  have b: "\<exists>c. reachable 4 1 (\<lambda>x y. True) (0, 0) c \<and> fst c = 3"
    using get_bfs_path_unreachable [of "demo_bot 0" "demo_controller (\<lambda>x y. True) None None"
        "(0, 0)" "\<lambda>x y t. x = 3"] demo_path_some
    by (simp add: demo_bot_def demo_controller_def demo_map_def)
  from a b demo_path_none demo_path_some show ?thesis by simp
qed

text \<open>
  C8.  A step other than (0, 0) returned by \<^verbatim>\<open>get_bfs_path\<close> is one of the four unit
  moves, and the cell it leads to from the start is within bounds and walkable.
\<close>

theorem get_bfs_path_unit_step:
  assumes "get_bfs_path self controller start target_predicate = Some s"
    and "s \<noteq> (0, 0)"
  shows "s \<in> {(1, 0), (- 1, 0), (0, 1), (0, - 1)}
       \<and> 0 \<le> fst start + fst s \<and> fst start + fst s < width (self_map self)
       \<and> 0 \<le> snd start + snd s \<and> snd start + snd s < height (self_map self)
       \<and> is_tile_walkable (get_map controller) (fst start + fst s) (snd start + snd s)"
proof -
  have "path_inv (width (self_map self)) (height (self_map self))
          (is_tile_walkable (get_map controller)) start [(start, [])]"
    by (simp add: path_inv_def)
  from bfs_loop_step [OF this assms(1) [unfolded get_bfs_path_def]] assms(2)
  show ?thesis
    by (simp add: directions_def enterable_def step_cell_def)
qed

theorem get_bfs_path_unit_step_witness:
  "get_bfs_path (demo_bot 0) (demo_controller (\<lambda>x y. True) None None) (0, 0)
       (\<lambda>x y t. x = 3) = Some (1, 0)
   \<and> (1, 0) \<noteq> (0 :: int, 0 :: int)
   \<and> (0 :: int) + 1 < width (self_map (demo_bot 0))
   \<and> is_tile_walkable (get_map (demo_controller (\<lambda>x y. True) None None)) (0 + 1) (0 + 0)"
  using get_bfs_path_unit_step [OF demo_path_some] demo_path_some by simp

section \<open>Properties of the per-turn step\<close>

lemma move_towards_shape:
  "move_towards s c b tx ty = (True, [])
   \<or> move_towards s c b tx ty = (False, [])
   \<or> (\<exists>dx dy. move_towards s c b tx ty = (False, [Move b dx dy]))"
  by (auto simp: move_towards_def Let_def split: option.splits)

lemma state_0_out: "state_0 c ck = (st, acts, err) \<Longrightarrow> acts = []"
  by (cases ck) (auto simp: state_0_def)

lemma state_1_out:
  assumes "state_1 s c b bx by' held ck = (st, acts, err)"
  shows "length acts \<le> 1 \<and> (\<forall>a \<in> set acts. checked_action a \<longrightarrow> st = 1)"
proof -
  obtain kx ky where ck: "ck = (kx, ky)" by (cases ck)
  show ?thesis
  proof (cases "held = None")
    case False
    with assms move_towards_shape [of s c b kx ky] show ?thesis
      by (auto simp: state_1_def ck checked_action_def split: if_splits)
  next
    case True
    show ?thesis
    proof (cases "find_nearest_tile c bx by' ''SHOP''")
      case None
      with assms True show ?thesis by (auto simp: state_1_def ck)
    next
      case (Some sh)
      obtain sx sy where sh: "sh = (sx, sy)" by (cases sh)
      from assms True Some move_towards_shape [of s c b sx sy] show ?thesis
        by (auto simp: state_1_def ck sh checked_action_def split: if_splits)
    qed
  qed
qed

lemma state_buy_out:
  assumes "state_buy s c b bx by' what here next = (st, acts, err)"
  shows "length acts \<le> 1
       \<and> (\<forall>a \<in> set acts. checked_action a \<and> \<not> action_result c a \<longrightarrow> st = here)"
proof (cases "find_nearest_tile c bx by' ''SHOP''")
  case None
  with assms show ?thesis by (auto simp: state_buy_def)
next
  case (Some sh)
  obtain sx sy where sh: "sh = (sx, sy)" by (cases sh)
  from assms Some move_towards_shape [of s c b sx sy] show ?thesis
    by (auto simp: state_buy_def sh checked_action_def split: if_splits)
qed

lemma state_place_out:
  assumes "state_place s c b target here next = (st, acts, err)"
  shows "length acts \<le> 1 \<and> (\<forall>a \<in> set acts. \<not> checked_action a)"
proof -
  obtain tx ty where t: "target = (tx, ty)" by (cases target)
  from assms move_towards_shape [of s c b tx ty] show ?thesis
    by (auto simp: state_place_def t checked_action_def split: if_splits)
qed

lemma state_act_out:
  assumes "state_act s c b target act here next = (st, acts, err)"
  shows "length acts \<le> 1
       \<and> (\<forall>a \<in> set acts. checked_action a \<and> \<not> action_result c a \<longrightarrow> st = here)"
proof -
  obtain tx ty where t: "target = (tx, ty)" by (cases target)
  from assms move_towards_shape [of s c b tx ty] show ?thesis
    by (auto simp: state_act_def t checked_action_def split: if_splits)
qed

lemma state_12_out:
  assumes "state_12 s c b ck = (st, acts, err)"
  shows "length acts \<le> 1 \<and> (\<forall>a \<in> set acts. \<not> checked_action a)"
proof -
  obtain kx ky where ck: "ck = (kx, ky)" by (cases ck)
  from assms move_towards_shape [of s c b kx ky] show ?thesis
    by (auto simp: state_12_def ck checked_action_def split: if_splits option.splits)
qed

lemma state_15_out:
  assumes "state_15 s c b bx by' = (st, acts, err)"
  shows "length acts \<le> 1
       \<and> (\<forall>a \<in> set acts. checked_action a \<and> \<not> action_result c a \<longrightarrow> st = 15)"
proof (cases "find_nearest_tile c bx by' ''SUBMIT''")
  case None
  with assms show ?thesis by (auto simp: state_15_def)
next
  case (Some sh)
  obtain sx sy where sh: "sh = (sx, sy)" by (cases sh)
  from assms Some move_towards_shape [of s c b sx sy] show ?thesis
    by (auto simp: state_15_def sh checked_action_def split: if_splits)
qed

lemma state_17_out:
  assumes "state_17 s c b bx by' held cnt ck = (st, acts, err)"
  shows "length acts \<le> 1 \<and> (\<forall>a \<in> set acts. checked_action a \<longrightarrow> st = 17)"
proof -
  obtain kx ky where ck: "ck = (kx, ky)" by (cases ck)
  obtain cx cy where cnt: "cnt = (cx, cy)" by (cases cnt)
  show ?thesis
  proof (cases held)
    case None
    with assms show ?thesis
      by (auto simp: state_17_def ck cnt checked_action_def split: if_splits)
  next
    case (Some it)
    note h = Some
    show ?thesis
    proof (cases "\<exists>f. it = Pan f")
      case True
      with assms h move_towards_shape [of s c b kx ky] show ?thesis
        by (auto simp: state_17_def ck cnt checked_action_def split: if_splits)
    next
      case False
      note np = False
      show ?thesis
      proof (cases "find_nearest_tile c bx by' ''TRASH''")
        case None
        with assms h np show ?thesis
          by (cases it) (auto simp: state_17_def ck cnt)
      next
        case (Some tr)
        obtain tx ty where tr: "tr = (tx, ty)" by (cases tr)
        from assms h np Some move_towards_shape [of s c b tx ty] show ?thesis
          by (cases it) (auto simp: state_17_def ck cnt tr checked_action_def split: if_splits)
      qed
    qed
  qed
qed

lemma run_state_out:
  assumes "run_state s c b bx by' held cnt ck = (st, acts, err)"
  shows "length acts \<le> 1
       \<and> (\<forall>a \<in> set acts. checked_action a \<and> \<not> action_result c a \<longrightarrow> st = state s)"
proof -
  consider "state s = 0" | "state s = 1" | "state s = 2" | "state s = 3" | "state s = 4"
    | "state s = 5" | "state s = 6" | "state s = 8" | "state s = 9" | "state s = 10"
    | "state s = 11" | "state s = 12" | "state s = 13" | "state s = 14" | "state s = 15"
    | "state s = 17"
    | "state s \<notin> {0, 1, 2, 3, 4, 5, 6, 8, 9, 10, 11, 12, 13, 14, 15, 17}"
    by auto
  then show ?thesis
  proof cases
    case 1
    with assms state_0_out [of c ck st acts err] show ?thesis by (auto simp: run_state_def)
  next
    case 2
    with assms state_1_out [of s c b bx by' held ck st acts err] show ?thesis
      by (auto simp: run_state_def)
  next
    case 3
    with assms state_buy_out [of s c b bx by' MEAT 2 3 st acts err] show ?thesis
      by (auto simp: run_state_def)
  next
    case 4
    with assms state_place_out [of s c b cnt 3 4 st acts err] show ?thesis
      by (auto simp: run_state_def)
  next
    case 5
    with assms state_act_out [of s c b cnt Chop 4 5 st acts err] show ?thesis
      by (auto simp: run_state_def)
  next
    case 6
    with assms state_act_out [of s c b cnt Pickup 5 6 st acts err] show ?thesis
      by (auto simp: run_state_def)
  next
    case 7
    with assms state_place_out [of s c b ck 6 8 st acts err] show ?thesis
      by (auto simp: run_state_def)
  next
    case 8
    with assms state_buy_out [of s c b bx by' PLATE 8 9 st acts err] show ?thesis
      by (auto simp: run_state_def)
  next
    case 9
    with assms state_place_out [of s c b cnt 9 10 st acts err] show ?thesis
      by (auto simp: run_state_def)
  next
    case 10
    with assms state_buy_out [of s c b bx by' NOODLES 10 11 st acts err] show ?thesis
      by (auto simp: run_state_def)
  next
    case 11
    with assms state_act_out [of s c b cnt Add_food_to_plate 11 12 st acts err] show ?thesis
      by (auto simp: run_state_def)
  next
    case 12
    with assms state_12_out [of s c b ck st acts err] show ?thesis
      by (auto simp: run_state_def)
  next
    case 13
    with assms state_act_out [of s c b cnt Add_food_to_plate 13 14 st acts err] show ?thesis
      by (auto simp: run_state_def)
  next
    case 14
    with assms state_act_out [of s c b cnt Pickup 14 15 st acts err] show ?thesis
      by (auto simp: run_state_def)
  next
    case 15
    with assms state_15_out [of s c b bx by' st acts err] show ?thesis
      by (auto simp: run_state_def)
  next
    case 16
    with assms state_17_out [of s c b bx by' held cnt ck st acts err] show ?thesis
      by (auto simp: run_state_def)
  next
    case 17
    with assms show ?thesis by (auto simp: run_state_def)
  qed
qed

lemma move_towards_cong:
  "self_map s1 = self_map s2 \<Longrightarrow> move_towards s1 c = move_towards s2 c"
  by (simp add: fun_eq_iff move_towards_def get_bfs_path_def Let_def)

lemma run_state_cong:
  assumes "self_map s1 = self_map s2" "state s1 = state s2"
  shows "run_state s1 c = run_state s2 c"
proof -
  note mt = move_towards_cong [OF assms(1), of c]
  have "state_1 s1 c = state_1 s2 c" by (simp add: fun_eq_iff state_1_def mt cong: option.case_cong prod.case_cong item.case_cong)
  moreover have "state_buy s1 c = state_buy s2 c" by (simp add: fun_eq_iff state_buy_def mt cong: option.case_cong prod.case_cong item.case_cong)
  moreover have "state_place s1 c = state_place s2 c"
    by (simp add: fun_eq_iff state_place_def mt cong: option.case_cong prod.case_cong item.case_cong)
  moreover have "state_act s1 c = state_act s2 c" by (simp add: fun_eq_iff state_act_def mt cong: option.case_cong prod.case_cong item.case_cong)
  moreover have "state_12 s1 c = state_12 s2 c" by (simp add: fun_eq_iff state_12_def mt cong: option.case_cong prod.case_cong item.case_cong)
  moreover have "state_15 s1 c = state_15 s2 c" by (simp add: fun_eq_iff state_15_def mt cong: option.case_cong prod.case_cong item.case_cong)
  moreover have "state_17 s1 c = state_17 s2 c" by (simp add: fun_eq_iff state_17_def mt cong: option.case_cong prod.case_cong item.case_cong)
  ultimately show ?thesis
    using assms(2) by (simp add: fun_eq_iff run_state_def)
qed

lemma cache_locations_control:
  "self_map (cache_locations s c bx by') = self_map s"
  "state (cache_locations s c bx by') = state s"
  "my_bot_id (cache_locations s c bx by') = my_bot_id s"
  by (simp_all add: cache_locations_def Let_def)

lemma cache_locations_cong:
  "same_control s1 s2 \<Longrightarrow>
     same_control (cache_locations s1 c bx by') (cache_locations s2 c bx by')"
  by (auto simp: cache_locations_def same_control_def Let_def)

lemma play_turn_fsm_cong:
  assumes "same_control s1 s2"
  shows "snd (play_turn_fsm s1 c b) = snd (play_turn_fsm s2 c b)
       \<and> same_control (fst (play_turn_fsm s1 c b)) (fst (play_turn_fsm s2 c b))
       \<and> my_bot_id (fst (play_turn_fsm s1 c b)) = my_bot_id (fst (play_turn_fsm s2 c b))"
proof -
  define bx where "bx = bot_x (get_bot_state c b)"
  define by' where "by' = bot_y (get_bot_state c b)"
  define t1 where "t1 = cache_locations (s1\<lparr>my_bot_id := Some b\<rparr>) c bx by'"
  define t2 where "t2 = cache_locations (s2\<lparr>my_bot_id := Some b\<rparr>) c bx by'"
  from assms have "same_control (s1\<lparr>my_bot_id := Some b\<rparr>) (s2\<lparr>my_bot_id := Some b\<rparr>)"
    by (simp add: same_control_def)
  then have sc: "same_control t1 t2"
    unfolding t1_def t2_def by (rule cache_locations_cong)
  have mb: "my_bot_id t1 = my_bot_id t2"
    by (simp add: t1_def t2_def cache_locations_control)
  from sc have rs: "run_state t1 c = run_state t2 c"
    by (intro run_state_cong) (simp_all add: same_control_def)
  have p1: "play_turn_fsm s1 c b =
      (case assembly_counter t1 of None \<Rightarrow> (t1, [], None)
       | Some counter \<Rightarrow>
          (case cooker_loc t1 of None \<Rightarrow> (t1, [], None)
           | Some cooker \<Rightarrow>
             (case run_state t1 c b bx by' (holding (get_bot_state c b)) counter cooker of
                (st, acts, err) \<Rightarrow> (t1\<lparr>state := st\<rparr>, acts, err))))"
    unfolding play_turn_fsm_def t1_def bx_def by'_def Let_def by (rule refl)
  have p2: "play_turn_fsm s2 c b =
      (case assembly_counter t2 of None \<Rightarrow> (t2, [], None)
       | Some counter \<Rightarrow>
          (case cooker_loc t2 of None \<Rightarrow> (t2, [], None)
           | Some cooker \<Rightarrow>
             (case run_state t2 c b bx by' (holding (get_bot_state c b)) counter cooker of
                (st, acts, err) \<Rightarrow> (t2\<lparr>state := st\<rparr>, acts, err))))"
    unfolding play_turn_fsm_def t2_def bx_def by'_def Let_def by (rule refl)
  from sc mb show ?thesis
    unfolding p1 p2 rs by (auto simp: same_control_def split: option.splits prod.splits)
qed

lemma play_turn_priority_control:
  "same_control (fst (play_turn_priority s c)) s"
  "my_bot_id (fst (play_turn_priority s c)) = my_bot_id s"
  by (simp_all add: play_turn_priority_def same_control_def Let_def)

lemma play_turn_Cons:
  assumes "get_team_bot_ids c = b # bs"
  shows "bot_after (play_turn s c) = fst (play_turn_fsm (fst (play_turn_priority s c)) c b)"
    and "actions (play_turn s c) = fst (snd (play_turn_fsm (fst (play_turn_priority s c)) c b))"
    and "raised (play_turn s c) = snd (snd (play_turn_fsm (fst (play_turn_priority s c)) c b))"
    and "printed (play_turn s c) = snd (play_turn_priority s c)"
  using assms by (simp_all add: play_turn_def split: prod.splits)

lemma play_turn_fsm_out:
  assumes "play_turn_fsm s c b = (s', acts, err)"
  shows "length acts \<le> 1
       \<and> (\<forall>a \<in> set acts. checked_action a \<and> \<not> action_result c a \<longrightarrow> state s' = state s)"
proof -
  define bx where "bx = bot_x (get_bot_state c b)"
  define by' where "by' = bot_y (get_bot_state c b)"
  define t1 where "t1 = cache_locations (s\<lparr>my_bot_id := Some b\<rparr>) c bx by'"
  have st: "state t1 = state s" by (simp add: t1_def cache_locations_control)
  have p1: "play_turn_fsm s c b =
      (case assembly_counter t1 of None \<Rightarrow> (t1, [], None)
       | Some counter \<Rightarrow>
          (case cooker_loc t1 of None \<Rightarrow> (t1, [], None)
           | Some cooker \<Rightarrow>
             (case run_state t1 c b bx by' (holding (get_bot_state c b)) counter cooker of
                (st, acts, err) \<Rightarrow> (t1\<lparr>state := st\<rparr>, acts, err))))"
    unfolding play_turn_fsm_def t1_def bx_def by'_def Let_def by (rule refl)
  show ?thesis
  proof (cases "assembly_counter t1")
    case None
    with assms show ?thesis by (auto simp: p1)
  next
    case (Some counter)
    note h = Some
    show ?thesis
    proof (cases "cooker_loc t1")
      case None
      with assms h show ?thesis by (auto simp: p1)
    next
      case (Some cooker)
      obtain st' acts' err' where r:
        "run_state t1 c b bx by' (holding (get_bot_state c b)) counter cooker = (st', acts', err')"
        by (metis prod_cases3)
      from assms h Some r have e: "s' = t1\<lparr>state := st'\<rparr>" "acts = acts'"
        by (simp_all add: p1)
      from run_state_out [OF r] e st show ?thesis by simp
    qed
  qed
qed


lemma play_turn_control:
  assumes "get_team_bot_ids c = b # bs"
  shows "actions (play_turn s c) = fst (snd (play_turn_fsm s c b))"
    and "raised (play_turn s c) = snd (snd (play_turn_fsm s c b))"
    and "state (bot_after (play_turn s c)) = state (fst (play_turn_fsm s c b))"
    and "assembly_counter (bot_after (play_turn s c)) = assembly_counter (fst (play_turn_fsm s c b))"
    and "cooker_loc (bot_after (play_turn s c)) = cooker_loc (fst (play_turn_fsm s c b))"
    and "self_map (bot_after (play_turn s c)) = self_map (fst (play_turn_fsm s c b))"
  using play_turn_fsm_cong [OF play_turn_priority_control(1) [of s c], of c b] assms
  by (simp_all add: play_turn_Cons [of c b bs] same_control_def)

lemma demo_upto: "[0 .. (3::int)] = [0, 1, 2, 3]"
  by (simp add: upto.simps)

lemma demo_find:
  "find_nearest_tile (demo_controller walk ci held) 1 0 ''COUNTER'' = Some (0, 0)"
  "find_nearest_tile (demo_controller walk ci held) 1 0 ''COOKER'' = Some (2, 0)"
  "find_nearest_tile (demo_controller walk ci held) 1 0 ''SHOP'' = None"
  by (simp_all add: find_nearest_tile_def demo_controller_def demo_map_def demo_upto
      nearer_tile_def)

lemma demo_cache:
  "cache_locations ((demo_bot st)\<lparr>my_bot_id := Some 7\<rparr>) (demo_controller walk ci held) 1 0
     = (demo_bot st)\<lparr>my_bot_id := Some 7, assembly_counter := Some (0, 0),
                      cooker_loc := Some (2, 0)\<rparr>"
  by (simp add: cache_locations_def demo_find Let_def) (simp add: demo_bot_def)

lemma demo_fsm:
  "play_turn_fsm (demo_bot st) (demo_controller walk ci held) 7
     = (case run_state ((demo_bot st)\<lparr>my_bot_id := Some 7, assembly_counter := Some (0, 0),
                      cooker_loc := Some (2, 0)\<rparr>) (demo_controller walk ci held) 7 1 0 held
               (0, 0) (2, 0) of
          (st', acts, err) \<Rightarrow>
            ((demo_bot st)\<lparr>my_bot_id := Some 7, assembly_counter := Some (0, 0),
                      cooker_loc := Some (2, 0), state := st'\<rparr>, acts, err))"
proof -
  have b: "get_bot_state (demo_controller walk ci held) 7 = \<lparr>bot_x = 1, bot_y = 0, holding = held\<rparr>"
    by (simp add: demo_controller_def)
  show ?thesis
    unfolding play_turn_fsm_def Let_def b bot_state.simps demo_cache
    by simp
qed

lemma demo_arrived:
  "move_towards s (demo_controller walk ci held) 7 0 0 = (True, [])"
  "move_towards s (demo_controller walk ci held) 7 2 0 = (True, [])"
  by (simp_all add: move_towards_def demo_controller_def Let_def)

lemma demo_state:
  "state ((demo_bot st)\<lparr>my_bot_id := Some 7, assembly_counter := Some (0, 0),
                      cooker_loc := Some (2, 0)\<rparr>) = st"
  by (simp add: demo_bot_def)

lemma demo_run_0:
  "play_turn_fsm (demo_bot 0) (demo_controller walk None None) 7
     = ((demo_bot 0)\<lparr>my_bot_id := Some 7, assembly_counter := Some (0, 0),
                      cooker_loc := Some (2, 0), state := 1\<rparr>, [], None)"
  unfolding demo_fsm
  by (simp add: run_state_def demo_state state_0_def pan_on_tile_def demo_controller_def)

lemma demo_run_1:
  "play_turn_fsm (demo_bot 1) (demo_controller walk None None) 7
     = ((demo_bot 1)\<lparr>my_bot_id := Some 7, assembly_counter := Some (0, 0),
                      cooker_loc := Some (2, 0), state := 1\<rparr>, [], Some TypeError)"
  unfolding demo_fsm
  by (simp add: run_state_def demo_state state_1_def demo_find)


lemma demo_run_4:
  "play_turn_fsm (demo_bot 4) (demo_controller walk None None) 7
     = ((demo_bot 4)\<lparr>my_bot_id := Some 7, assembly_counter := Some (0, 0),
                      cooker_loc := Some (2, 0), state := 4\<rparr>, [Chop 7 0 0], None)"
  unfolding demo_fsm
  by (simp add: run_state_def demo_state state_act_def demo_arrived)
     (simp add: demo_controller_def)

lemma demo_run_12:
  "play_turn_fsm (demo_bot 12)
       (demo_controller walk (Some (Pan (Some \<lparr>cooked_stage = k\<rparr>))) None) 7
     = ((demo_bot 12)\<lparr>my_bot_id := Some 7, assembly_counter := Some (0, 0),
                      cooker_loc := Some (2, 0), state := (if k = 1 then 13 else 12)\<rparr>,
        if k = 1 then [Take_from_pan 7 2 0] else [], None)"
  unfolding demo_fsm
  by (simp add: run_state_def demo_state state_12_def demo_arrived)
     (simp add: demo_controller_def pan_food_def)


lemma demo_bots: "get_team_bot_ids (demo_controller walk ci held) = [7]"
  by (simp add: demo_controller_def)


lemma cache_locations_cached:
  "assembly_counter s = Some cnt \<Longrightarrow> cooker_loc s = Some ck \<Longrightarrow> cache_locations s c bx by' = s"
  by (simp add: cache_locations_def Let_def)

lemma play_turn_fsm_cached:
  assumes "assembly_counter s = Some cnt" "cooker_loc s = Some ck"
  shows "play_turn_fsm s c b =
     (case run_state (s\<lparr>my_bot_id := Some b\<rparr>) c b (bot_x (get_bot_state c b))
             (bot_y (get_bot_state c b)) (holding (get_bot_state c b)) cnt ck of
        (st, acts, err) \<Rightarrow> (s\<lparr>my_bot_id := Some b, state := st\<rparr>, acts, err))"
proof -
  have "cache_locations (s\<lparr>my_bot_id := Some b\<rparr>) c (bot_x (get_bot_state c b))
          (bot_y (get_bot_state c b)) = s\<lparr>my_bot_id := Some b\<rparr>"
    using assms by (intro cache_locations_cached) simp_all
  then show ?thesis
    unfolding play_turn_fsm_def Let_def using assms by simp
qed

lemma move_towards_near:
  "max \<bar>bot_x (get_bot_state c b) - tx\<bar> \<bar>bot_y (get_bot_state c b) - ty\<bar> \<le> 1 \<Longrightarrow>
     move_towards s c b tx ty = (True, [])"
  by (simp add: move_towards_def Let_def)

lemma move_towards_far:
  "\<not> max \<bar>bot_x (get_bot_state c b) - tx\<bar> \<bar>bot_y (get_bot_state c b) - ty\<bar> \<le> 1 \<Longrightarrow>
     move_towards s c b tx ty = (False, [])
     \<or> (\<exists>dx dy. move_towards s c b tx ty = (False, [Move b dx dy]))"
  by (auto simp: move_towards_def Let_def split: option.splits)

lemma pan_food_Some:
  "pan_food t = Some f \<longleftrightarrow> (\<exists>tt. t = Some tt \<and> item tt = Some (Pan (Some f)))"
  by (auto simp: pan_food_def split: option.splits item.splits)

lemma await_cooked_step:
  assumes "get_team_bot_ids controller = b # bs"
    and "state self = 12"
    and "assembly_counter self = Some counter"
    and "cooker_loc self = Some (kx, ky)"
  shows "if max \<bar>bot_x (get_bot_state controller b) - kx\<bar>
               \<bar>bot_y (get_bot_state controller b) - ky\<bar> \<le> 1
            \<and> (\<exists>tt f. get_tile controller kx ky = Some tt \<and> item tt = Some (Pan (Some f))
                       \<and> cooked_stage f = 1)
         then actions (play_turn self controller) = [Take_from_pan b kx ky]
            \<and> state (bot_after (play_turn self controller)) = 13
         else state (bot_after (play_turn self controller)) = 12
            \<and> (\<forall>x y. Take_from_pan b x y \<notin> set (actions (play_turn self controller)))"
proof -
  let ?near = "max \<bar>bot_x (get_bot_state controller b) - kx\<bar>
                   \<bar>bot_y (get_bot_state controller b) - ky\<bar> \<le> 1"
  let ?r = "state_12 (self\<lparr>my_bot_id := Some b\<rparr>) controller b (kx, ky)"
  have fsm: "play_turn_fsm self controller b =
      (case ?r of (st, acts, err) \<Rightarrow> (self\<lparr>my_bot_id := Some b, state := st\<rparr>, acts, err))"
    using assms(2) by (simp add: play_turn_fsm_cached [OF assms(3,4)] run_state_def)
  have a: "actions (play_turn self controller) = fst (snd ?r)"
    and s: "state (bot_after (play_turn self controller)) = fst ?r"
    unfolding play_turn_control [OF assms(1)] fsm by (simp_all split: prod.splits)
  show ?thesis
  proof (cases ?near)
    case True
    note mt = move_towards_near [OF True, of "self\<lparr>my_bot_id := Some b\<rparr>"]
    show ?thesis
    proof (cases "pan_food (get_tile controller kx ky)")
      case None
      then have "\<not> (\<exists>tt f. get_tile controller kx ky = Some tt \<and> item tt = Some (Pan (Some f))
                       \<and> cooked_stage f = 1)"
        using pan_food_Some [of "get_tile controller kx ky"] by auto
      moreover from None have "?r = (12, [], None)" by (simp add: state_12_def mt)
      ultimately show ?thesis by (simp add: a s)
    next
      case (Some f)
      then have e: "(\<exists>tt f. get_tile controller kx ky = Some tt \<and> item tt = Some (Pan (Some f))
                       \<and> cooked_stage f = 1) \<longleftrightarrow> cooked_stage f = 1"
        using pan_food_Some [of "get_tile controller kx ky"] by auto
      from Some have "?r = (if cooked_stage f = 1 then (13, [Take_from_pan b kx ky], None)
                            else (12, [], None))"
        by (simp add: state_12_def mt)
      with True e show ?thesis by (simp add: a s)
    qed
  next
    case False
    from move_towards_far [OF False, of "self\<lparr>my_bot_id := Some b\<rparr>"]
    have "?r = (12, [], None) \<or> (\<exists>dx dy. ?r = (12, [Move b dx dy], None))"
      by (auto simp: state_12_def)
    with False show ?thesis by (auto simp: a s)
  qed
qed

lemma demo_waiting_fields:
  "state demo_waiting = 12" "assembly_counter demo_waiting = Some (0, 0)"
  "cooker_loc demo_waiting = Some (2, 0)"
  by (simp_all add: demo_waiting_def demo_bot_def)

lemma demo_cooker_tile:
  "get_tile (demo_controller walk (demo_pan k) held) 2 0
     = Some \<lparr>tile_name = ''COOKER'', item = Some (Pan (Some \<lparr>cooked_stage = k\<rparr>))\<rparr>"
  "bot_x (get_bot_state (demo_controller walk ci held) 7) = 1"
  "bot_y (get_bot_state (demo_controller walk ci held) 7) = 0"
  by (simp_all add: demo_controller_def demo_map_def demo_pan_def)

lemma play_turn_fsm_order_id:
  "current_order_id (fst (play_turn_fsm s c b)) = current_order_id s"
  by (simp add: play_turn_fsm_def cache_locations_def Let_def split: option.splits prod.splits)

lemma demo_bot_queue:
  "build_order_priority_queue [] 1 demo_orders 0
       (bot_config (demo_controller walk ci held))
   = [score_order [] 1 (bot_config (demo_controller walk ci held)) 0 (demo_order 3 True 20 0),
      score_order [] 1 (bot_config (demo_controller walk ci held)) 0 (demo_order 1 True 10 0),
      score_order [] 1 (bot_config (demo_controller walk ci held)) 0 (demo_order 2 False 10 5)]"
  by (simp add: build_order_priority_queue_def sort_reverse_def survives_def bot_config_def
      demo_controller_def demo_order_def demo_orders_def order_is_active_def priority_key_def
      score_order_def Let_def estimate_prep_turns_def build_default_prep_time_by_food_def
      order.extend_def scored_order.fields_def less_eq_prod_def)

lemma demo_selected:
  "current_order_id (fst (play_turn_priority s (demo_controller walk ci held))) = Some 3"
  "current_order_id (fst (play_turn_priority s
       ((demo_controller walk ci held)\<lparr>get_orders := []\<rparr>))) = None"
proof -
  have c: "all_food_types (demo_controller walk ci held) = []"
    "COOK_PROGRESS (demo_controller walk ci held) = 1"
    "get_orders (demo_controller walk ci held) = demo_orders"
    "get_turn (demo_controller walk ci held) = 0"
    by (simp_all add: demo_controller_def)
  have a: "order_is_active (score_order [] 1 cfg 0 (demo_order 3 True 20 0))" for cfg
    by (simp add: score_order_active) (simp add: order_is_active_def demo_order_def)
  show "current_order_id (fst (play_turn_priority s (demo_controller walk ci held))) = Some 3"
    unfolding play_turn_priority_def c Let_def demo_bot_queue
    by (simp add: a score_order_id) (simp add: demo_order_def)
  show "current_order_id (fst (play_turn_priority s
       ((demo_controller walk ci held)\<lparr>get_orders := []\<rparr>))) = None"
    by (simp add: play_turn_priority_def Let_def build_order_priority_queue_def
        sort_reverse_def)
qed



section \<open>The claims about the per-turn step\<close>

text \<open>
  C4 (as amended).  In every invocation of \<^verbatim>\<open>play_turn\<close> at most one mutating action
  (move, buy, place, chop, pickup, add-to-plate, take-from-pan, submit or trash) is
  attempted.
\<close>

theorem play_turn_at_most_one_action:
  "length (actions (play_turn self controller)) \<le> 1"
proof (cases "get_team_bot_ids controller")
  case Nil
  then show ?thesis by (simp add: play_turn_def)
next
  case (Cons b bs)
  obtain s1 out where p: "play_turn_priority self controller = (s1, out)"
    by (cases "play_turn_priority self controller")
  obtain s2 acts err where f: "play_turn_fsm s1 controller b = (s2, acts, err)"
    by (metis prod_cases3)
  from play_turn_fsm_out [OF f] have "length acts \<le> 1" by simp
  with Cons p f show ?thesis by (simp add: play_turn_def)
qed

theorem play_turn_at_most_one_action_witness:
  "actions (play_turn (demo_bot 4) (demo_controller (\<lambda>x y. True) None None)) = [Chop 7 0 0]
   \<and> length (actions (play_turn (demo_bot 4) (demo_controller (\<lambda>x y. True) None None))) \<le> 1"
  using play_turn_at_most_one_action [of "demo_bot 4" "demo_controller (\<lambda>x y. True) None None"]
  by (simp add: play_turn_control [OF demo_bots] demo_run_4)

text \<open>
  The claim C4 as written fails: a turn in state 0, the check for a pan, attempts no
  action at all.
\<close>

theorem check_pan_no_action_counterexample:
  "state (demo_bot 0) = 0
   \<and> actions (play_turn (demo_bot 0) (demo_controller (\<lambda>x y. True) None None)) = []
   \<and> length (actions (play_turn (demo_bot 0) (demo_controller (\<lambda>x y. True) None None))) \<noteq> 1"
  by (simp add: play_turn_control [OF demo_bots] demo_run_0) (simp add: demo_bot_def)




text \<open>
  C6.  On a map with a counter and a cooker and no shop, the second turn of a bot that
  starts with empty hands unpacks the \<^verbatim>\<open>None\<close> that \<^verbatim>\<open>find_nearest_tile\<close> returns for
  \<^verbatim>\<open>"SHOP"\<close> and raises \<^verbatim>\<open>TypeError\<close>; so does any turn in state 1 with empty hands.
\<close>

theorem play_turn_raises_without_shop:
  "find_nearest_tile (demo_controller (\<lambda>x y. True) None None) 1 0 ''SHOP'' = None
   \<and> state (bot_after (play_turn (demo_bot 0) (demo_controller (\<lambda>x y. True) None None))) = 1
   \<and> raised (play_turn (demo_bot 0) (demo_controller (\<lambda>x y. True) None None)) = None
   \<and> raised (play_turn (bot_after (play_turn (demo_bot 0)
                (demo_controller (\<lambda>x y. True) None None)))
              (demo_controller (\<lambda>x y. True) None None)) = Some TypeError
   \<and> raised (play_turn (demo_bot 1) (demo_controller (\<lambda>x y. True) None None))
       = Some TypeError"
proof -
  let ?c = "demo_controller (\<lambda>x y. True) None None"
  let ?s1 = "bot_after (play_turn (demo_bot 0) ?c)"
  let ?t = "(demo_bot 0)\<lparr>my_bot_id := Some 7, assembly_counter := Some (0, 0),
                      cooker_loc := Some (2, 0), state := 1\<rparr>"
  have c1: "same_control ?s1 ?t"
    by (simp add: same_control_def play_turn_control [OF demo_bots] demo_run_0)
  have t: "assembly_counter ?t = Some (0, 0)" "cooker_loc ?t = Some (2, 0)" "state ?t = 1"
    by simp_all
  have b: "holding (get_bot_state ?c 7) = None"
    by (simp add: demo_controller_def)
  have "snd (snd (play_turn_fsm ?t ?c 7)) = Some TypeError"
    by (simp add: play_turn_fsm_cached [OF t(1,2)] run_state_def state_1_def demo_cooker_tile
        demo_find b)
  with play_turn_fsm_cong [OF c1, of ?c 7]
  have "raised (play_turn ?s1 ?c) = Some TypeError"
    by (simp add: play_turn_control [OF demo_bots])
  then show ?thesis
    by (simp add: play_turn_control [OF demo_bots] demo_run_0 demo_run_1 demo_find)
qed

text \<open>
  C9 (as amended).  In state 12, with both locations cached, the turn issues
  \<^verbatim>\<open>take_from_pan\<close> at the cooker (and nothing else) and moves to state 13 exactly when
  the bot is within Chebyshev distance 1 of the cooker and the cooker tile holds a pan
  whose food has cooked stage equal to 1; in every other case the state stays 12 and no
  \<^verbatim>\<open>take_from_pan\<close> is issued.
\<close>

theorem await_cooked_takes_at_stage_one:
  assumes "get_team_bot_ids controller = b # bs"
    and "state self = 12"
    and "assembly_counter self = Some counter"
    and "cooker_loc self = Some (kx, ky)"
  shows "if max \<bar>bot_x (get_bot_state controller b) - kx\<bar>
               \<bar>bot_y (get_bot_state controller b) - ky\<bar> \<le> 1
            \<and> (\<exists>tt f. get_tile controller kx ky = Some tt \<and> item tt = Some (Pan (Some f))
                       \<and> cooked_stage f = 1)
         then actions (play_turn self controller) = [Take_from_pan b kx ky]
            \<and> state (bot_after (play_turn self controller)) = 13
         else state (bot_after (play_turn self controller)) = 12
            \<and> (\<forall>x y. Take_from_pan b x y \<notin> set (actions (play_turn self controller)))"
  using assms by (rule await_cooked_step)

theorem await_cooked_takes_at_stage_one_witness:
  "get_team_bot_ids (demo_controller (\<lambda>x y. True) (demo_pan 1) None) = [7]
   \<and> state demo_waiting = 12
   \<and> assembly_counter demo_waiting = Some (0, 0)
   \<and> cooker_loc demo_waiting = Some (2, 0)
   \<and> actions (play_turn demo_waiting (demo_controller (\<lambda>x y. True) (demo_pan 1) None))
       = [Take_from_pan 7 2 0]
   \<and> state (bot_after (play_turn demo_waiting (demo_controller (\<lambda>x y. True) (demo_pan 1) None)))
       = 13"
  using await_cooked_takes_at_stage_one [OF demo_bots demo_waiting_fields,
      of "\<lambda>x y. True" "demo_pan 1" None]
  by (simp add: demo_bots demo_waiting_fields demo_cooker_tile)

text \<open>
  The claim C9 as written fails past the threshold: food with cooked stage 2 is left
  in the pan, and the state stays 12.
\<close>

theorem overcooked_not_taken_counterexample:
  "max \<bar>bot_x (get_bot_state (demo_controller (\<lambda>x y. True) (demo_pan 2) None) 7) - 2\<bar>
       \<bar>bot_y (get_bot_state (demo_controller (\<lambda>x y. True) (demo_pan 2) None) 7) - 0\<bar> \<le> 1
   \<and> get_tile (demo_controller (\<lambda>x y. True) (demo_pan 2) None) 2 0
       = Some \<lparr>tile_name = ''COOKER'', item = Some (Pan (Some \<lparr>cooked_stage = 2\<rparr>))\<rparr>
   \<and> state demo_waiting = 12
   \<and> cooker_loc demo_waiting = Some (2, 0)
   \<and> actions (play_turn demo_waiting (demo_controller (\<lambda>x y. True) (demo_pan 2) None)) = []
   \<and> state (bot_after (play_turn demo_waiting (demo_controller (\<lambda>x y. True) (demo_pan 2) None)))
       = 12"
proof -
  let ?c = "demo_controller (\<lambda>x y. True) (demo_pan 2) None"
  have fsm: "play_turn_fsm demo_waiting ?c 7
      = (demo_waiting\<lparr>my_bot_id := Some 7, state := 12\<rparr>, [], None)"
    by (simp add: play_turn_fsm_cached [OF demo_waiting_fields(2,3)] run_state_def
        demo_waiting_fields state_12_def demo_arrived demo_cooker_tile pan_food_def)
  show ?thesis
    by (simp add: play_turn_control [OF demo_bots] fsm demo_cooker_tile demo_waiting_fields)
qed

text \<open>
  C10.  Two turn snapshots that differ only in the order list give the same state
  transition, the same action calls, the same error and the same cached locations and bot
  id: the order list reaches only the printed queue and the bookkeeping fields.
\<close>

theorem play_turn_ignores_orders:
  "state (bot_after (play_turn self (controller\<lparr>get_orders := os\<rparr>)))
     = state (bot_after (play_turn self controller))
   \<and> actions (play_turn self (controller\<lparr>get_orders := os\<rparr>))
     = actions (play_turn self controller)
   \<and> raised (play_turn self (controller\<lparr>get_orders := os\<rparr>))
     = raised (play_turn self controller)
   \<and> assembly_counter (bot_after (play_turn self (controller\<lparr>get_orders := os\<rparr>)))
     = assembly_counter (bot_after (play_turn self controller))
   \<and> cooker_loc (bot_after (play_turn self (controller\<lparr>get_orders := os\<rparr>)))
     = cooker_loc (bot_after (play_turn self controller))
   \<and> my_bot_id (bot_after (play_turn self (controller\<lparr>get_orders := os\<rparr>)))
     = my_bot_id (bot_after (play_turn self controller))"
proof (cases "get_team_bot_ids controller")
  case Nil
  then show ?thesis by (simp add: play_turn_def)
next
  case (Cons b bs)
  let ?c' = "controller\<lparr>get_orders := os\<rparr>"
  have nt: "nearer_tile ?c' = nearer_tile controller"
    by (simp add: fun_eq_iff nearer_tile_def)
  have fn: "find_nearest_tile ?c' = find_nearest_tile controller"
    by (simp add: fun_eq_iff find_nearest_tile_def nt)
  have mt: "move_towards s ?c' = move_towards s controller" for s
    by (simp add: fun_eq_iff move_towards_def get_bfs_path_def Let_def)
  have h0: "state_0 ?c' = state_0 controller"
    by (simp add: fun_eq_iff state_0_def)
  have h1: "state_1 s ?c' = state_1 s controller" for s
    by (simp add: fun_eq_iff state_1_def fn mt
        cong: if_cong option.case_cong prod.case_cong)
  have h2: "state_buy s ?c' = state_buy s controller" for s
    by (simp add: fun_eq_iff state_buy_def fn mt
        cong: if_cong option.case_cong prod.case_cong)
  have h3: "state_place s ?c' = state_place s controller" for s
    by (simp add: fun_eq_iff state_place_def mt
        cong: if_cong option.case_cong prod.case_cong item.case_cong)
  have h4: "state_act s ?c' = state_act s controller" for s
    by (simp add: fun_eq_iff state_act_def mt
        cong: if_cong option.case_cong prod.case_cong)
  have h5: "state_12 s ?c' = state_12 s controller" for s
    by (simp add: fun_eq_iff state_12_def mt
        cong: if_cong option.case_cong prod.case_cong item.case_cong)
  have h6: "state_15 s ?c' = state_15 s controller" for s
    by (simp add: fun_eq_iff state_15_def fn mt
        cong: if_cong option.case_cong prod.case_cong)
  have h7: "state_17 s ?c' = state_17 s controller" for s
    by (simp add: fun_eq_iff state_17_def fn mt
        cong: if_cong option.case_cong prod.case_cong item.case_cong)
  have rs: "run_state s ?c' = run_state s controller" for s
    by (simp add: fun_eq_iff run_state_def h0 h1 h2 h3 h4 h5 h6 h7)
  have fsm: "play_turn_fsm s ?c' = play_turn_fsm s controller" for s
  proof -
    have "cache_locations s ?c' bx by' = cache_locations s controller bx by'" for s bx by'
      unfolding cache_locations_def fn by (rule refl)
    then have cl: "cache_locations s ?c' = cache_locations s controller" for s
      by (simp add: fun_eq_iff)
    show "play_turn_fsm s ?c' = play_turn_fsm s controller" for s
      by (simp add: fun_eq_iff play_turn_fsm_def cl rs Let_def
          cong: option.case_cong prod.case_cong)
  qed
  have "same_control (fst (play_turn_priority self ?c')) (fst (play_turn_priority self controller))"
    using play_turn_priority_control(1) [of self ?c']
      play_turn_priority_control(1) [of self controller]
    by (simp add: same_control_def)
  from play_turn_fsm_cong [OF this, of controller b]
  show ?thesis
    using Cons by (simp add: play_turn_Cons [of _ b bs] fsm same_control_def)
qed

theorem play_turn_ignores_orders_witness:
  "actions (play_turn (demo_bot 4) ((demo_controller (\<lambda>x y. True) None None)\<lparr>get_orders := []\<rparr>))
     = actions (play_turn (demo_bot 4) (demo_controller (\<lambda>x y. True) None None))
   \<and> actions (play_turn (demo_bot 4) (demo_controller (\<lambda>x y. True) None None)) = [Chop 7 0 0]
   \<and> current_order_id (bot_after (play_turn (demo_bot 4)
        ((demo_controller (\<lambda>x y. True) None None)\<lparr>get_orders := []\<rparr>))) = None
   \<and> current_order_id (bot_after (play_turn (demo_bot 4)
        (demo_controller (\<lambda>x y. True) None None))) = Some 3"
proof -
  let ?c = "demo_controller (\<lambda>x y. True) None None"
  have b: "get_team_bot_ids (?c\<lparr>get_orders := []\<rparr>) = [7]" by (simp add: demo_bots)
  have "current_order_id (bot_after (play_turn (demo_bot 4) (?c\<lparr>get_orders := []\<rparr>))) = None"
    by (simp add: play_turn_Cons(1) [OF b] play_turn_fsm_order_id demo_selected)
  moreover have "current_order_id (bot_after (play_turn (demo_bot 4) ?c)) = Some 3"
    by (simp add: play_turn_Cons(1) [OF demo_bots] play_turn_fsm_order_id demo_selected)
  moreover have "actions (play_turn (demo_bot 4) ?c) = [Chop 7 0 0]"
    by (simp add: play_turn_control [OF demo_bots] demo_run_4)
  ultimately show ?thesis
    using play_turn_ignores_orders [where self = "demo_bot 4" and controller = ?c and os = "[]"]
    by simp
qed

end
